theory Spec2Isabelle
  imports Main "HOL-Library.Sublist"
begin

section \<open>Strings of code points\<close>

text \<open>
  A Python \<open>str\<close> is a sequence of Unicode code points, so a character is modelled by
  its code point and a string by the list of its code points. The characters that
  \<open>lii_processor.py\<close> names are introduced below under their code point.
\<close>

type_synonym uchar = nat
type_synonym ustring = "uchar list"

definition asc :: "string \<Rightarrow> ustring" where
  \<comment> \<open>an ASCII literal as a string of code points\<close>
  "asc s = map of_char s"

abbreviation (input) LF :: uchar where "LF \<equiv> 10"        \<comment> \<open>line feed\<close>
abbreviation (input) SPC :: uchar where "SPC \<equiv> 32"      \<comment> \<open>space\<close>
abbreviation (input) DASH :: uchar where "DASH \<equiv> 45"    \<comment> \<open>hyphen-minus\<close>
abbreviation (input) SLASH :: uchar where "SLASH \<equiv> 47"  \<comment> \<open>solidus\<close>

abbreviation (input) LING :: uchar where "LING \<equiv> 0x96F6"   \<comment> \<open>U+96F6, zero\<close>
abbreviation (input) YI :: uchar where "YI \<equiv> 0x4E00"       \<comment> \<open>U+4E00, one\<close>
abbreviation (input) ER :: uchar where "ER \<equiv> 0x4E8C"       \<comment> \<open>U+4E8C, two\<close>
abbreviation (input) SAN :: uchar where "SAN \<equiv> 0x4E09"     \<comment> \<open>U+4E09, three\<close>
abbreviation (input) SI :: uchar where "SI \<equiv> 0x56DB"       \<comment> \<open>U+56DB, four\<close>
abbreviation (input) WU :: uchar where "WU \<equiv> 0x4E94"       \<comment> \<open>U+4E94, five\<close>
abbreviation (input) LIU :: uchar where "LIU \<equiv> 0x516D"     \<comment> \<open>U+516D, six\<close>
abbreviation (input) QI :: uchar where "QI \<equiv> 0x4E03"       \<comment> \<open>U+4E03, seven\<close>
abbreviation (input) BA :: uchar where "BA \<equiv> 0x516B"       \<comment> \<open>U+516B, eight\<close>
abbreviation (input) JIU :: uchar where "JIU \<equiv> 0x4E5D"     \<comment> \<open>U+4E5D, nine\<close>
abbreviation (input) SHI :: uchar where "SHI \<equiv> 0x5341"     \<comment> \<open>U+5341, ten\<close>
abbreviation (input) BAI :: uchar where "BAI \<equiv> 0x767E"     \<comment> \<open>U+767E, hundred\<close>

abbreviation (input) DI :: uchar where "DI \<equiv> 0x7B2C"       \<comment> \<open>U+7B2C, the ordinal prefix\<close>
abbreviation (input) ZHANG :: uchar where "ZHANG \<equiv> 0x7AE0" \<comment> \<open>U+7AE0, chapter\<close>
abbreviation (input) TIAO :: uchar where "TIAO \<equiv> 0x6761"   \<comment> \<open>U+6761, article\<close>
abbreviation (input) YE :: uchar where "YE \<equiv> 0x9875"       \<comment> \<open>U+9875, page\<close>

definition MULU :: ustring where
  \<comment> \<open>U+76EE U+5F55, "table of contents"\<close>
  "MULU = [0x76EE, 0x5F55]"

definition DOTS :: ustring where
  \<comment> \<open>the literal \<open>...\<close>\<close>
  "DOTS = [46, 46, 46]"

definition ZHENGJIANHUI :: ustring where
  \<comment> \<open>U+8BC1 U+76D1 U+4F1A\<close>
  "ZHENGJIANHUI = [0x8BC1, 0x76D1, 0x4F1A]"

definition YEMA :: ustring where
  \<comment> \<open>U+9875 U+7801, "page number"\<close>
  "YEMA = [0x9875, 0x7801]"

definition ZHONGHUA :: ustring where
  \<comment> \<open>U+4E2D U+534E U+4EBA U+6C11 U+5171 U+548C U+56FD, the state's full name\<close>
  "ZHONGHUA = [0x4E2D, 0x534E, 0x4EBA, 0x6C11, 0x5171, 0x548C, 0x56FD]"

subsection \<open>Built-in string operations\<close>

definition is_space :: "uchar \<Rightarrow> bool" where
  \<comment> \<open>\<open>str.isspace\<close> on one character; the same set is what \<open>str.strip()\<close> removes and
      what \<open>\\s\<close> matches in a \<open>str\<close> pattern\<close>
  "is_space c \<longleftrightarrow> c \<in> set [0x9, 0xA, 0xB, 0xC, 0xD, 0x1C, 0x1D, 0x1E, 0x1F, 0x20, 0x85, 0xA0,
      0x1680, 0x2000, 0x2001, 0x2002, 0x2003, 0x2004, 0x2005, 0x2006, 0x2007, 0x2008,
      0x2009, 0x200A, 0x2028, 0x2029, 0x202F, 0x205F, 0x3000]"

definition strip :: "ustring \<Rightarrow> ustring" where
  \<comment> \<open>\<open>text.strip()\<close>\<close>
  "strip s = rev (dropWhile is_space (rev (dropWhile is_space s)))"

fun contains :: "ustring \<Rightarrow> ustring \<Rightarrow> bool" where
  \<comment> \<open>\<open>sub in text\<close>\<close>
  "contains sub [] = (sub = [])"
| "contains sub (c # cs) = (prefix sub (c # cs) \<or> contains sub cs)"

definition is_ascii_digit :: "uchar \<Rightarrow> bool" where
  "is_ascii_digit c \<longleftrightarrow> 48 \<le> c \<and> c \<le> 57"

definition isdigit :: "ustring \<Rightarrow> bool" where
  \<comment> \<open>\<open>a_num_str.isdigit()\<close>. The source applies it only to group 1 of the article
      pattern, whose characters are ASCII digits or the eleven numeral ideographs; on
      those characters \<open>str.isdigit\<close> holds exactly for the ASCII digits.\<close>
  "isdigit s \<longleftrightarrow> s \<noteq> [] \<and> list_all is_ascii_digit s"

fun str_nat :: "nat \<Rightarrow> ustring" where
  "str_nat n = (if n < 10 then [48 + n] else str_nat (n div 10) @ [48 + n mod 10])"

declare str_nat.simps [simp del]

definition py_str :: "int \<Rightarrow> ustring" where
  \<comment> \<open>the decimal rendering that an f-string gives an \<open>int\<close>\<close>
  "py_str i = (if i < 0 then DASH # str_nat (nat (- i)) else str_nat (nat i))"

datatype py_error = ValueError

text \<open>
  What the pass takes from the Python runtime rather than from the repository:
  the Unicode case mapping behind \<open>str.lower\<close>, the set of characters that \<open>\\d\<close>
  matches in a \<open>str\<close> pattern (the decimal digits of the Unicode database in use), and
  the interpreter's limit on the length of a digit string given to \<open>int\<close>
  (\<open>sys.get_int_max_str_digits()\<close>, by default 4300, with 0 for no limit).
\<close>

record py_runtime =
  str_lower :: "ustring \<Rightarrow> ustring"
  re_digit :: "uchar \<Rightarrow> bool"
  int_max_str_digits :: nat

definition dec_value :: "ustring \<Rightarrow> int" where
  "dec_value s = foldl (\<lambda>a c. 10 * a + (int c - 48)) 0 s"

definition py_int :: "py_runtime \<Rightarrow> ustring \<Rightarrow> py_error + int" where
  \<comment> \<open>\<open>int(a_num_str)\<close> on a string of ASCII digits: CPython refuses a string of more
      than 640 digits that is longer than the configured limit\<close>
  "py_int R s =
     (if 640 < length s \<and> 0 < int_max_str_digits R \<and> int_max_str_digits R < length s
      then Inl ValueError else Inr (dec_value s))"

definition lower_ascii :: "uchar \<Rightarrow> uchar" where
  "lower_ascii c = (if 65 \<le> c \<and> c \<le> 90 then c + 32 else c)"

definition cpython :: py_runtime where
  \<comment> \<open>the runtime with its default limit, its tables cut down to ASCII: it agrees with
      CPython on every string of ASCII characters and CJK ideographs, which is what
      the concrete inputs below are made of\<close>
  "cpython = \<lparr> str_lower = map lower_ascii, re_digit = is_ascii_digit,
               int_max_str_digits = 4300 \<rparr>"

section \<open>The numeral normalizer\<close>

definition CN_NUM :: "uchar \<rightharpoonup> int" where
  "CN_NUM = map_of [(LING, 0), (YI, 1), (ER, 2), (SAN, 3), (SI, 4), (WU, 5), (LIU, 6),
                    (QI, 7), (BA, 8), (JIU, 9), (SHI, 10)]"

definition cn_char :: "int \<times> int \<Rightarrow> uchar \<Rightarrow> int \<times> int" where
  \<comment> \<open>one turn of the loop of \<open>cn_to_int\<close> on the pair \<open>(res, temp)\<close>\<close>
  "cn_char rt char =
     (case rt of (res, temp) \<Rightarrow>
        if char = BAI then (res + (if temp \<noteq> 0 then temp else 1) * 100, 0)
        else if char = SHI then (res + (if temp \<noteq> 0 then temp else 1) * 10, 0)
        else (res, case CN_NUM char of Some v \<Rightarrow> v | None \<Rightarrow> 0))"

definition cn_to_int :: "ustring option \<Rightarrow> int" where
  \<comment> \<open>the argument is \<open>None\<close> or a \<open>str\<close>\<close>
  "cn_to_int cn =
     (case cn of None \<Rightarrow> 0
      | Some s \<Rightarrow> if s = [] then 0
                  else (case foldl cn_char (0, 0) s of (res, temp) \<Rightarrow> res + temp))"

subsection \<open>The normalizer as the specification words it\<close>

definition numeral_char :: "uchar \<Rightarrow> bool" where
  \<comment> \<open>the digits zero to nine and the markers ten and hundred\<close>
  "numeral_char c \<longleftrightarrow> c \<in> set [LING, YI, ER, SAN, SI, WU, LIU, QI, BA, JIU, SHI, BAI]"

definition digit_value :: "uchar \<Rightarrow> int" where
  "digit_value c =
     (if c = YI then 1 else if c = ER then 2 else if c = SAN then 3
      else if c = SI then 4 else if c = WU then 5 else if c = LIU then 6
      else if c = QI then 7 else if c = BA then 8 else if c = JIU then 9 else 0)"

fun normalize :: "int \<Rightarrow> int \<Rightarrow> ustring \<Rightarrow> int" where
  \<comment> \<open>the scan of section 4.1 on a running total and a pending digit\<close>
  "normalize tot pending [] = tot + pending"
| "normalize tot pending (c # cs) =
     (if c = BAI then normalize (tot + (if pending = 0 then 1 else pending) * 100) 0 cs
      else if c = SHI then normalize (tot + (if pending = 0 then 1 else pending) * 10) 0 cs
      else normalize tot (digit_value c) cs)"

definition cn_digit :: "nat \<Rightarrow> uchar" where
  "cn_digit k = [LING, YI, ER, SAN, SI, WU, LIU, QI, BA, JIU] ! k"

definition cn_units :: "nat \<Rightarrow> ustring" where
  "cn_units u = (if u = 0 then [] else [cn_digit u])"

definition cn_tens :: "nat \<Rightarrow> ustring" where
  "cn_tens r = [cn_digit (r div 10), SHI] @ cn_units (r mod 10)"

definition cn_numeral :: "nat \<Rightarrow> ustring" where
  \<comment> \<open>the numeral that denotes a number below 1000, as statutes write it: a lone ten
      for 10 to 19, and a zero before the units when the tens are missing\<close>
  "cn_numeral n =
     (if n < 10 then [cn_digit n]
      else if n < 20 then SHI # cn_units (n - 10)
      else if n < 100 then cn_tens n
      else [cn_digit (n div 100), BAI] @
           (if n mod 100 = 0 then []
            else if n mod 100 < 10 then [LING, cn_digit (n mod 100)]
            else cn_tens (n mod 100)))"

section \<open>The patterns of the structural pass\<close>

definition cn_numeral_char :: "uchar \<Rightarrow> bool" where
  \<comment> \<open>the class of the chapter pattern: the ideographs one to nine, ten and hundred\<close>
  "cn_numeral_char c \<longleftrightarrow> c \<in> set [YI, ER, SAN, SI, WU, LIU, QI, BA, JIU, SHI, BAI]"

definition article_numeral_char :: "uchar \<Rightarrow> bool" where
  \<comment> \<open>the class of the article pattern: the same with \<open>0-9\<close>\<close>
  "article_numeral_char c \<longleftrightarrow> is_ascii_digit c \<or> cn_numeral_char c"

definition header_match :: "(uchar \<Rightarrow> bool) \<Rightarrow> uchar \<Rightarrow> ustring \<Rightarrow> ustring option" where
  \<comment> \<open>\<open>re.match\<close> of the ordinal prefix, one or more characters of a class and a closing
      character that is outside the class; the result is group 1. The closing character
      cannot be taken by the class, so the group is the longest run.\<close>
  "header_match cls close text =
     (case text of [] \<Rightarrow> None
      | c # r \<Rightarrow>
          if c = DI \<and> takeWhile cls r \<noteq> [] \<and>
             (case dropWhile cls r of [] \<Rightarrow> False | d # _ \<Rightarrow> d = close)
          then Some (takeWhile cls r) else None)"

definition chapter_match :: "ustring \<Rightarrow> ustring option" where
  \<comment> \<open>\<open>c_match\<close> with its group 1\<close>
  "chapter_match text = header_match cn_numeral_char ZHANG text"

definition article_match :: "ustring \<Rightarrow> ustring option" where
  \<comment> \<open>\<open>a_match\<close> with its group 1\<close>
  "article_match text = header_match article_numeral_char TIAO text"

definition split_here :: "ustring \<Rightarrow> bool" where
  \<comment> \<open>the pattern of \<open>section_split\<close> matches at the very start of the string: a run of
      white space (all of it, since the ordinal prefix is not white space), then an
      article marker\<close>
  "split_here t \<longleftrightarrow>
     (case t of [] \<Rightarrow> False
      | c # _ \<Rightarrow> is_space c \<and> article_match (dropWhile is_space t) \<noteq> None)"

fun section_split :: "ustring \<Rightarrow> nat option" where
  \<comment> \<open>\<open>re.search\<close>: the start of the leftmost match\<close>
  "section_split [] = None"
| "section_split (c # cs) =
     (if split_here (c # cs) then Some 0 else map_option Suc (section_split cs))"

fun star :: "(uchar \<Rightarrow> bool) \<Rightarrow> ustring \<Rightarrow> ustring list" where
  \<comment> \<open>what can remain of a string after \<open>p*\<close> has matched at its start\<close>
  "star p [] = [[]]"
| "star p (c # cs) = (c # cs) # (if p c then star p cs else [])"

definition plus :: "(uchar \<Rightarrow> bool) \<Rightarrow> ustring \<Rightarrow> ustring list" where
  \<comment> \<open>the same for \<open>p+\<close>\<close>
  "plus p t = (case t of [] \<Rightarrow> [] | c # cs \<Rightarrow> if p c then star p cs else [])"

definition page_marker :: "py_runtime \<Rightarrow> ustring \<Rightarrow> bool" where
  \<comment> \<open>the alternative \<open>-\\s*\\d+\\s*-\<close>\<close>
  "page_marker R t \<longleftrightarrow>
     (case t of [] \<Rightarrow> False
      | c # r \<Rightarrow> c = DASH \<and>
          (\<exists>r1 \<in> set (star is_space r). \<exists>r2 \<in> set (plus (re_digit R) r1).
             \<exists>r3 \<in> set (star is_space r2). case r3 of [] \<Rightarrow> False | d # _ \<Rightarrow> d = DASH))"

definition page_of :: "ustring \<Rightarrow> bool" where
  \<comment> \<open>the alternative of the ordinal prefix, \<open>.*\<close> and the page ideograph; the dot
      matches every character but the line feed\<close>
  "page_of t \<longleftrightarrow>
     (case t of [] \<Rightarrow> False | c # r \<Rightarrow> c = DI \<and> YE \<in> set (takeWhile (\<lambda>x. x \<noteq> LF) r))"

definition is_noise :: "py_runtime \<Rightarrow> ustring \<Rightarrow> bool" where
  \<comment> \<open>the denylist of the content branch, anchored at the start of the text\<close>
  "is_noise R text \<longleftrightarrow>
     prefix ZHENGJIANHUI text \<or> prefix YEMA text \<or> prefix (asc ''[source'') text \<or>
     prefix ZHONGHUA text \<or> page_of text \<or> page_marker R text"

definition cleaned :: "ustring \<Rightarrow> ustring" where
  \<comment> \<open>\<open>text.replace('\\n', '').replace(' ', '')\<close>\<close>
  "cleaned text = filter (\<lambda>c. c \<noteq> SPC) (filter (\<lambda>c. c \<noteq> LF) text)"

section \<open>The storage collaborator\<close>

text \<open>
  Modelled from the spec: the tables \<open>legal_nodes\<close> and \<open>legal_metadata\<close>, whose schema is
  not in the repository. Their columns are the fields of LegalNode and DocumentMetadata
  in section 3 of the specification, under the names that the statements of the source
  give them. Each table has the unique key that its \<open>ON CONFLICT\<close> clause names,
  \<open>parent_uri\<close> may be null, and no other constraint is assumed. The three statements are
  those of the source, with the meaning PostgreSQL gives them.
\<close>

record node =
  doc_id :: ustring
  label :: string
  num_val :: int
  content :: ustring
  parent_uri :: "ustring option"

record metadata =
  title :: ustring
  creator :: ustring
  pub_date :: ustring

record database =
  legal_metadata :: "ustring \<rightharpoonup> metadata"   \<comment> \<open>keyed by \<open>doc_id\<close>\<close>
  legal_nodes :: "ustring \<rightharpoonup> node"          \<comment> \<open>keyed by \<open>uri\<close>\<close>

datatype statement =
    UpsertMetadata ustring ustring ustring ustring
      \<comment> \<open>\<open>doc_id\<close>, \<open>title\<close>, \<open>creator\<close>, \<open>pub_date\<close>\<close>
  | UpsertNode ustring ustring string int ustring "ustring option"
      \<comment> \<open>\<open>doc_id\<close>, \<open>uri\<close>, \<open>label\<close>, \<open>num_val\<close>, \<open>content\<close>, \<open>parent_uri\<close>\<close>
  | AppendContent ustring ustring
      \<comment> \<open>the fragment and the \<open>uri\<close>\<close>

fun exec :: "database \<Rightarrow> statement \<Rightarrow> database" where
  "exec db (UpsertMetadata d t c p) =
     db\<lparr>legal_metadata := (legal_metadata db)(d \<mapsto>
        (case legal_metadata db d of
           None \<Rightarrow> \<lparr>title = t, creator = c, pub_date = p\<rparr>
         | Some m \<Rightarrow> m\<lparr>title := t\<rparr>))\<rparr>"
| "exec db (UpsertNode d u l n c p) =
     db\<lparr>legal_nodes := (legal_nodes db)(u \<mapsto>
        (case legal_nodes db u of
           None \<Rightarrow> \<lparr>doc_id = d, label = l, num_val = n, content = c, parent_uri = p\<rparr>
         | Some r \<Rightarrow> r\<lparr>content := c, parent_uri := p, label := l\<rparr>))\<rparr>"
| "exec db (AppendContent frag u) =
     (case legal_nodes db u of
        None \<Rightarrow> db
      | Some r \<Rightarrow> db\<lparr>legal_nodes := (legal_nodes db)(u \<mapsto> r\<lparr>content := content r @ frag\<rparr>)\<rparr>)"

definition commit :: "database \<Rightarrow> statement list \<Rightarrow> database" where
  \<comment> \<open>the statements of one transaction, in the order of their execution\<close>
  "commit db stmts = foldl exec db stmts"

section \<open>The structural reconstruction engine\<close>

text \<open>
  The pass never reads from the store: it executes statements on its cursor and commits
  once, after the last block. The state of the scan is the three variables of
  \<open>parse_and_store\<close> and the statements executed so far in the open transaction.
\<close>

record engine =
  current_c_uri :: "ustring option"
  active_uri :: "ustring option"
  has_entered_body :: bool
  cur :: "statement list"

definition execute :: "statement \<Rightarrow> engine \<Rightarrow> engine" where
  "execute s st = st\<lparr>cur := cur st @ [s]\<rparr>"

definition save_node ::
  "engine \<Rightarrow> ustring \<Rightarrow> ustring \<Rightarrow> string \<Rightarrow> int \<Rightarrow> ustring \<Rightarrow> ustring option \<Rightarrow> engine" where
  \<comment> \<open>\<open>_save_node\<close>\<close>
  "save_node st doc uri lab num cont parent = execute (UpsertNode doc uri lab num cont parent) st"

definition chapter_uri :: "py_runtime \<Rightarrow> ustring \<Rightarrow> int \<Rightarrow> ustring" where
  "chapter_uri R doc c_val = [SLASH] @ str_lower R doc @ asc ''/c'' @ py_str c_val"

definition article_uri :: "ustring \<Rightarrow> int \<Rightarrow> ustring" where
  "article_uri c_uri a_val = c_uri @ asc ''/a'' @ py_str a_val"

definition append_step :: "py_runtime \<Rightarrow> engine \<Rightarrow> ustring \<Rightarrow> engine" where
  \<comment> \<open>part C of the loop body\<close>
  "append_step R st text =
     (case active_uri st of
        None \<Rightarrow> st
      | Some a \<Rightarrow>
          if has_entered_body st \<and> a \<noteq> [] then
            if is_noise R text then st
            else execute (AppendContent (LF # cleaned text) a) st
          else st)"

definition article_number :: "py_runtime \<Rightarrow> ustring \<Rightarrow> py_error + int" where
  \<comment> \<open>\<open>a_val\<close>: \<open>int(a_num_str) if a_num_str.isdigit() else cn_to_int(a_num_str)\<close>\<close>
  "article_number R a_num_str =
     (if isdigit a_num_str then py_int R a_num_str else Inr (cn_to_int (Some a_num_str)))"

definition chapter_or_first :: "py_runtime \<Rightarrow> ustring \<Rightarrow> ustring option \<Rightarrow> ustring" where
  \<comment> \<open>\<open>current_c_uri\<close> after the fallback: a missing (or empty) one becomes chapter 1\<close>
  "chapter_or_first R doc c =
     (case c of None \<Rightarrow> chapter_uri R doc 1
      | Some u \<Rightarrow> if u = [] then chapter_uri R doc 1 else u)"

definition article_step :: "py_runtime \<Rightarrow> ustring \<Rightarrow> engine \<Rightarrow> ustring \<Rightarrow> py_error + engine" where
  \<comment> \<open>part B of the loop body, falling through to part C\<close>
  "article_step R doc st text =
     (case article_match text of
        None \<Rightarrow> Inr (append_step R st text)
      | Some a_num_str \<Rightarrow>
          (case article_number R a_num_str of
             Inl e \<Rightarrow> Inl e
           | Inr a_val \<Rightarrow>
               let c_uri = chapter_or_first R doc (current_c_uri st);
                   a_uri = article_uri c_uri a_val;
                   st1 = st\<lparr>has_entered_body := True, current_c_uri := Some c_uri,
                            active_uri := Some a_uri\<rparr>
               in Inr (save_node st1 doc a_uri ''section'' a_val text (Some c_uri))))"

definition step :: "py_runtime \<Rightarrow> ustring \<Rightarrow> engine \<Rightarrow> ustring \<Rightarrow> py_error + engine" where
  \<comment> \<open>the loop body on the stripped text of a block: part A, then parts B and C\<close>
  "step R doc st text =
     (case chapter_match text of
        None \<Rightarrow> article_step R doc st text
      | Some c_num_str \<Rightarrow>
          let c_val = cn_to_int (Some c_num_str) in
          if \<not> has_entered_body st \<and> (contains MULU text \<or> contains DOTS text) then Inr st
          else
            let c_uri = chapter_uri R doc c_val;
                st1 = st\<lparr>current_c_uri := Some c_uri, active_uri := Some c_uri\<rparr>
            in (case section_split text of
                  Some split_idx \<Rightarrow>
                    let chapter_title = strip (take split_idx text);
                        st2 = save_node st1 doc c_uri ''chapter'' c_val chapter_title None
                    in article_step R doc st2 (strip (drop split_idx text))
                | None \<Rightarrow> Inr (save_node st1 doc c_uri ''chapter'' c_val text None)))"

type_synonym item = "ustring option \<times> int"
  \<comment> \<open>an item of the converter with its level; the text is \<open>None\<close> for an item that has
      no \<open>text\<close> attribute or whose text is \<open>None\<close>\<close>

definition process_item :: "py_runtime \<Rightarrow> ustring \<Rightarrow> engine \<Rightarrow> item \<Rightarrow> py_error + engine" where
  "process_item R doc st it =
     (case fst it of
        None \<Rightarrow> Inr st
      | Some t \<Rightarrow> if t = [] then Inr st else step R doc st (strip t))"

fun scan :: "py_runtime \<Rightarrow> ustring \<Rightarrow> engine \<Rightarrow> item list \<Rightarrow> py_error + engine" where
  \<comment> \<open>the \<open>for\<close> loop over \<open>doc.iterate_items()\<close>; an exception ends it\<close>
  "scan R doc st [] = Inr st"
| "scan R doc st (it # its) =
     (case process_item R doc st it of
        Inl e \<Rightarrow> Inl e
      | Inr st' \<Rightarrow> scan R doc st' its)"

definition start :: "ustring \<Rightarrow> metadata \<Rightarrow> engine" where
  \<comment> \<open>the state on entry to the loop: the metadata statement has been executed\<close>
  "start doc md =
     \<lparr> current_c_uri = None, active_uri = None, has_entered_body = False,
       cur = [UpsertMetadata doc (title md) (creator md) (pub_date md)] \<rparr>"

definition parse_and_store ::
  "py_runtime \<Rightarrow> database \<Rightarrow> item list \<Rightarrow> ustring \<Rightarrow> metadata \<Rightarrow> py_error + database" where
  \<comment> \<open>\<open>parse_and_store\<close> on the items that the converter returns for \<open>file_path\<close>: the
      store after the commit, or the exception that ends the call before it\<close>
  "parse_and_store R db items doc md =
     (case scan R doc (start doc md) items of
        Inl e \<Rightarrow> Inl e
      | Inr st \<Rightarrow> Inr (commit db (cur st)))"

section \<open>Concrete documents\<close>

text \<open>
  The document of the call at the end of \<open>lii_processor.py\<close>, the Company Law under
  the identifier \<open>GSF\<close>, and the stores, blocks and states on which the concrete
  theorems below run the pass.
\<close>

definition GSF :: ustring where
  "GSF = asc ''GSF''"

definition gsf_metadata :: metadata where
  \<comment> \<open>the title is the state's name and U+516C U+53F8 U+6CD5; the creator is
      U+5168 U+56FD U+4EBA U+5927 U+5E38 U+59D4 U+4F1A\<close>
  "gsf_metadata =
     \<lparr> title = ZHONGHUA @ [0x516C, 0x53F8, 0x6CD5],
       creator = [0x5168, 0x56FD, 0x4EBA, 0x5927, 0x5E38, 0x59D4, 0x4F1A],
       pub_date = asc ''2023-12-29'' \<rparr>"

definition empty_db :: database where
  "empty_db = \<lparr> legal_metadata = Map.empty, legal_nodes = Map.empty \<rparr>"

definition stored_db :: database where
  \<comment> \<open>a store that already has a metadata row for \<open>GSF\<close>, from an earlier edition\<close>
  "stored_db =
     \<lparr> legal_metadata = [GSF \<mapsto> \<lparr> title = asc ''Company Law'',
                                     creator = asc ''NPC'', pub_date = asc ''2018-10-26'' \<rparr>],
       legal_nodes = Map.empty \<rparr>"





definition accrual_items :: "item list" where
  \<comment> \<open>the three blocks of the accrual example of section 8: article two and the letter A,
      then U+5185 U+5BB9 with the letter B, then the same with the letter C\<close>
  "accrual_items =
     [(Some [DI, ER, TIAO, SPC, 65], 0), (Some [0x5185, 0x5BB9, 66], 0),
      (Some [0x5185, 0x5BB9, 67], 0)]"

definition accrual_state :: engine where
  \<comment> \<open>the state of the scan after the first of these blocks\<close>
  "accrual_state =
     \<lparr> current_c_uri = Some (asc ''/gsf/c1''), active_uri = Some (asc ''/gsf/c1/a2''),
       has_entered_body = True,
       cur = [UpsertMetadata GSF (title gsf_metadata) (creator gsf_metadata)
                (pub_date gsf_metadata),
              UpsertNode GSF (asc ''/gsf/c1/a2'') ''section'' 2 [DI, ER, TIAO, SPC, 65]
                (Some (asc ''/gsf/c1''))] \<rparr>"

definition noisy_header :: ustring where
  \<comment> \<open>an article header that also matches the denylist: article three, U+89C1, and
      "page 5" written with the ordinal prefix and the page ideograph\<close>
  "noisy_header = [DI, SAN, TIAO, SPC, 0x89C1, DI, 53, YE]"




section \<open>Notions used in the proofs\<close>

definition is_node_statement :: "statement \<Rightarrow> bool" where
  "is_node_statement s = (case s of UpsertMetadata _ _ _ _ \<Rightarrow> False | _ \<Rightarrow> True)"

definition content_block :: "py_runtime \<Rightarrow> item \<Rightarrow> bool" where
  \<comment> \<open>an item with text that matches neither boundary pattern nor the denylist\<close>
  "content_block R it =
     (case fst it of None \<Rightarrow> False
      | Some t \<Rightarrow> t \<noteq> [] \<and> chapter_match (strip t) = None \<and> article_match (strip t) = None \<and>
                  \<not> is_noise R (strip t))"

definition fragment :: "item \<Rightarrow> ustring" where
  \<comment> \<open>what the content branch appends for an item: the separator and the cleaned text\<close>
  "fragment it = (case fst it of None \<Rightarrow> [] | Some t \<Rightarrow> LF # cleaned (strip t))"

fun upserted :: "statement list \<Rightarrow> ustring set" where
  \<comment> \<open>the URIs that a list of statements upserts\<close>
  "upserted [] = {}"
| "upserted (UpsertNode d u l n c p # L) = insert u (upserted L)"
| "upserted (AppendContent f u # L) = upserted L"
| "upserted (UpsertMetadata d t c p # L) = upserted L"

fun covered :: "ustring set \<Rightarrow> statement list \<Rightarrow> bool" where
  \<comment> \<open>every append is to a URI in \<open>C\<close> or to one upserted earlier in the list\<close>
  "covered C [] = True"
| "covered C (UpsertNode d u l n c p # L) = covered (insert u C) L"
| "covered C (AppendContent f u # L) = (u \<in> C \<and> covered C L)"
| "covered C (UpsertMetadata d t c p # L) = covered C L"

definition tidy :: "engine \<Rightarrow> bool" where
  "tidy st \<longleftrightarrow> covered {} (cur st) \<and> (\<forall>a. active_uri st = Some a \<longrightarrow> a \<in> upserted (cur st))"




section \<open>Properties of the numeral normalizer\<close>

lemma digit_cases:
  "k < 10 \<Longrightarrow> k = 0 \<or> k = 1 \<or> k = 2 \<or> k = 3 \<or> k = 4 \<or> k = 5 \<or> k = 6 \<or> k = 7 \<or>
     k = 8 \<or> k = (9::nat)"
  by (simp add: less_Suc_eq numeral_eq_Suc)

lemma cn_char_digit:
  assumes "k < 10"
  shows "cn_char (r, t) (cn_digit k) = (r, int k)"
  using digit_cases [OF assms]
  by (elim disjE) (simp_all add: cn_char_def cn_digit_def CN_NUM_def)

lemma cn_char_SHI: "cn_char (r, t) SHI = (r + (if t \<noteq> 0 then t else 1) * 10, 0)"
  by (simp add: cn_char_def)

lemma cn_char_BAI: "cn_char (r, t) BAI = (r + (if t \<noteq> 0 then t else 1) * 100, 0)"
  by (simp add: cn_char_def)

lemma cn_char_LING: "cn_char (r, t) LING = (r, 0)"
  by (simp add: cn_char_def CN_NUM_def)

lemma int_div_mod_10: "int (m div 10) * 10 + int (m mod 10) = int m"
  by (simp only: zdiv_int zmod_int of_nat_numeral div_mult_mod_eq)

lemma int_div_mod_100: "int (m div 100) * 100 + int (m mod 100) = int m"
  by (simp only: zdiv_int zmod_int of_nat_numeral div_mult_mod_eq)

lemma foldl_cn_units:
  "u < 10 \<Longrightarrow> foldl cn_char (r, 0) (cn_units u) = (r, int u)"
  by (simp add: cn_units_def cn_char_digit)

lemma foldl_cn_tens:
  assumes "10 \<le> m" "m < 100"
  shows "foldl cn_char (r, 0) (cn_tens m) = (r + int (m div 10) * 10, int (m mod 10))"
proof -
  have k: "m div 10 < 10" "m div 10 \<noteq> 0" "m mod 10 < 10"
    using assms by auto
  show ?thesis
    using k by (simp add: cn_tens_def cn_char_digit cn_char_SHI foldl_cn_units)
qed

lemma cn_roundtrip:
  assumes "n < 1000"
  shows "cn_to_int (Some (cn_numeral n)) = int n"
proof -
  consider "n < 10" | "10 \<le> n" "n < 20" | "20 \<le> n" "n < 100" | "100 \<le> n"
    by linarith
  then show ?thesis
  proof cases
    case 1
    then show ?thesis
      by (simp add: cn_to_int_def cn_numeral_def cn_char_digit)
  next
    case 2
    then have "n - 10 < 10" by simp
    from foldl_cn_units [OF this, of 10] 2 show ?thesis
      by (simp add: cn_to_int_def cn_numeral_def cn_char_SHI cn_units_def split: if_splits)
  next
    case 3
    have "cn_tens n \<noteq> []" by (simp add: cn_tens_def)
    with 3 foldl_cn_tens [of n 0] int_div_mod_10 [of n] show ?thesis
      by (simp add: cn_to_int_def cn_numeral_def)
  next
    case 4
    let ?h = "n div 100" and ?m = "n mod 100"
    have h: "?h < 10" "?h \<noteq> 0" using assms 4 by auto
    have n: "int n = int ?h * 100 + int ?m" using int_div_mod_100 [of n] by simp
    have hd: "foldl cn_char (0, 0) [cn_digit ?h, BAI] = (int ?h * 100, 0)"
      using h by (simp add: cn_char_digit cn_char_BAI)
    consider "?m = 0" | "0 < ?m" "?m < 10" | "10 \<le> ?m" by linarith
    then have "foldl cn_char (0, 0) (cn_numeral n) = (int ?h * 100, int ?m) \<or>
               foldl cn_char (0, 0) (cn_numeral n) = (int ?h * 100 + int (?m div 10) * 10, int (?m mod 10))"
    proof cases
      case 1
      with 4 hd show ?thesis by (simp add: cn_numeral_def)
    next
      case 2
      with 4 h show ?thesis
        by (simp add: cn_numeral_def cn_char_digit cn_char_BAI cn_char_LING)
    next
      case 3
      have "?m < 100" by simp
      from foldl_cn_tens [OF 3 this, of "int ?h * 100"] 3 4 h show ?thesis
        by (simp add: cn_numeral_def cn_char_digit cn_char_BAI)
    qed
    moreover have "cn_numeral n \<noteq> []" using 4 by (simp add: cn_numeral_def)
    moreover have "int (?m div 10) * 10 + int (?m mod 10) = int ?m" by (rule int_div_mod_10)
    ultimately show ?thesis
      unfolding cn_to_int_def using n by auto
  qed
qed

lemma cn_digit_numeral_char: "k < 10 \<Longrightarrow> numeral_char (cn_digit k)"
  by (drule digit_cases, elim disjE) (simp_all add: numeral_char_def cn_digit_def)

lemma cn_numeral_chars:
  assumes "n < 1000"
  shows "list_all numeral_char (cn_numeral n)"
proof -
  have d: "n div 100 < 10" "n mod 100 div 10 < 10" "n mod 100 mod 10 < 10"
    using assms by auto
  have s: "numeral_char SHI" "numeral_char BAI" "numeral_char LING"
    by (simp_all add: numeral_char_def)
  have "n < 100 \<Longrightarrow> n div 10 < 10" "n < 100 \<Longrightarrow> n mod 10 < 10" "n < 20 \<Longrightarrow> n - 10 < 10"
    by auto
  with d s show ?thesis
    by (simp add: cn_numeral_def cn_tens_def cn_units_def cn_digit_numeral_char)
qed

lemma cn_loop_normalize:
  "list_all numeral_char s \<Longrightarrow>
   (case foldl cn_char (res, temp) s of (r, t) \<Rightarrow> r + t) = normalize res temp s"
proof (induction s arbitrary: res temp)
  case Nil
  then show ?case by simp
next
  case (Cons c cs)
  then show ?case
    by (auto simp: cn_char_def CN_NUM_def numeral_char_def digit_value_def)
qed

lemma cn_char_unknown:
  "cn_char rt (if numeral_char c then c else LING) = cn_char rt c"
  by (cases rt) (auto simp: cn_char_def CN_NUM_def numeral_char_def)

lemma foldl_cn_char_unknown:
  "foldl cn_char rt (map (\<lambda>c. if numeral_char c then c else LING) s) = foldl cn_char rt s"
  by (induction s arbitrary: rt) (simp_all add: cn_char_unknown)

lemma cn_char_nonneg:
  "0 \<le> fst rt \<Longrightarrow> 0 \<le> snd rt \<Longrightarrow> 0 \<le> fst (cn_char rt c) \<and> 0 \<le> snd (cn_char rt c)"
  by (cases rt) (auto simp: cn_char_def CN_NUM_def)

lemma foldl_cn_char_nonneg:
  "0 \<le> fst rt \<Longrightarrow> 0 \<le> snd rt \<Longrightarrow>
   0 \<le> fst (foldl cn_char rt s) \<and> 0 \<le> snd (foldl cn_char rt s)"
proof (induction s arbitrary: rt)
  case Nil
  then show ?case by simp
next
  case (Cons c cs)
  from cn_char_nonneg [OF Cons.prems] Cons.IH [of "cn_char rt c"]
  show ?case by simp
qed

lemma cn_to_int_nonneg: "0 \<le> cn_to_int cn"
proof (cases cn)
  case None
  then show ?thesis by (simp add: cn_to_int_def)
next
  case (Some s)
  from foldl_cn_char_nonneg [of "(0, 0)" s] show ?thesis
    using Some by (auto simp: cn_to_int_def split: prod.splits)
qed

text \<open>
  C5: \<open>cn_to_int\<close> gives 10, 23, 100 and 123 on the four reference numerals and 0 on the
  empty string and on \<open>None\<close>. On every string over the digits zero to nine and the
  markers ten and hundred it computes what the scan of the specification computes
  (a running total and a pending digit; a hundred or a ten adds the pending digit, or 1
  when there is none, times 100 or 10; the pending digit is added at the end), and on
  the numeral of every number below 1000 it returns that number.
\<close>

theorem cn_to_int_reference_and_scan:
  "cn_to_int (Some [SHI]) = 10 \<and>
   cn_to_int (Some [ER, SHI, SAN]) = 23 \<and>
   cn_to_int (Some [YI, BAI]) = 100 \<and>
   cn_to_int (Some [YI, BAI, ER, SHI, SAN]) = 123 \<and>
   cn_to_int (Some []) = 0 \<and>
   cn_to_int None = 0 \<and>
   (list_all numeral_char s \<longrightarrow> cn_to_int (Some s) = normalize 0 0 s) \<and>
   (n < 1000 \<longrightarrow> list_all numeral_char (cn_numeral n) \<and>
                   cn_to_int (Some (cn_numeral n)) = int n)"
proof -
  have ref: "cn_to_int (Some [SHI]) = 10" "cn_to_int (Some [ER, SHI, SAN]) = 23"
    "cn_to_int (Some [YI, BAI]) = 100" "cn_to_int (Some [YI, BAI, ER, SHI, SAN]) = 123"
    "cn_to_int (Some []) = 0" "cn_to_int None = 0"
    by (simp_all add: cn_to_int_def cn_char_def CN_NUM_def)
  have scan: "cn_to_int (Some s) = normalize 0 0 s" if "list_all numeral_char s"
    using cn_loop_normalize [OF that, of 0 0] by (cases s) (simp_all add: cn_to_int_def)
  have "list_all numeral_char (cn_numeral n)" if "n < 1000"
    using that cn_numeral_chars by simp
  with ref scan cn_roundtrip show ?thesis by blast
qed

theorem cn_to_int_reference_and_scan_witness:
  "list_all numeral_char [YI, BAI, LING, SAN] \<and>
   cn_to_int (Some [YI, BAI, LING, SAN]) = normalize 0 0 [YI, BAI, LING, SAN] \<and>
   normalize 0 0 [YI, BAI, LING, SAN] = 103 \<and>
   (999::nat) < 1000 \<and>
   cn_numeral 999 = [JIU, BAI, JIU, SHI, JIU] \<and>
   cn_to_int (Some (cn_numeral 999)) = 999"
  using cn_to_int_reference_and_scan [of "[YI, BAI, LING, SAN]" 999]
  by (simp add: numeral_char_def digit_value_def cn_numeral_def cn_tens_def cn_units_def
      cn_digit_def)

text \<open>
  C8 (as amended): \<open>cn_to_int\<close> is total and its result is never negative, and a
  character outside the digits and the two markers is read as the digit zero: the
  result is that of the string in which every such character is replaced by the zero
  digit. Such a character adds nothing of its own, and it clears a pending digit.
\<close>

theorem cn_to_int_unknown_as_zero:
  "0 \<le> cn_to_int cn \<and>
   cn_to_int (Some s) = cn_to_int (Some (map (\<lambda>c. if numeral_char c then c else LING) s))"
  using cn_to_int_nonneg [of cn]
  by (simp add: cn_to_int_def foldl_cn_char_unknown)

theorem cn_to_int_unknown_as_zero_witness:
  "cn_to_int (Some [ER, 120]) = cn_to_int (Some [ER, LING]) \<and>
   cn_to_int (Some [ER, LING]) = 0 \<and> 0 \<le> cn_to_int (Some [ER, 120])"
  using cn_to_int_unknown_as_zero [of "Some [ER, 120]" "[ER, 120]"]
  by (simp add: numeral_char_def cn_to_int_def cn_char_def CN_NUM_def)

text \<open>
  C8 as the claim states it fails: the string of the digit two and the letter x gives 0,
  and with the letter removed it gives 2.
\<close>

theorem cn_to_int_unknown_removed_counterexample:
  "cn_to_int (Some [ER, 120]) = 0 \<and> \<not> numeral_char 120 \<and>
   filter numeral_char [ER, 120] = [ER] \<and>
   cn_to_int (Some (filter numeral_char [ER, 120])) = 2 \<and>
   cn_to_int (Some [ER, 120]) \<noteq> cn_to_int (Some (filter numeral_char [ER, 120]))"
  by (simp add: numeral_char_def cn_to_int_def cn_char_def CN_NUM_def)

section \<open>The statements of one step\<close>

lemma commit_append: "commit db (L @ M) = commit (commit db L) M"
  by (simp add: commit_def)

lemma commit_Nil: "commit db [] = db"
  by (simp add: commit_def)

lemma commit_Cons: "commit db (s # L) = commit (exec db s) L"
  by (simp add: commit_def)

lemma exec_node_metadata:
  "is_node_statement s \<Longrightarrow> legal_metadata (exec db s) = legal_metadata db"
  by (cases s) (simp_all add: is_node_statement_def split: option.splits)

lemma commit_node_metadata:
  "list_all is_node_statement L \<Longrightarrow> legal_metadata (commit db L) = legal_metadata db"
  by (induction L arbitrary: db) (simp_all add: commit_Nil commit_Cons exec_node_metadata)

lemma append_step_cases:
  obtains
    (append) a where "active_uri st = Some a" "a \<noteq> []" "has_entered_body st"
      "\<not> is_noise R text"
      "append_step R st text = st\<lparr>cur := cur st @ [AppendContent (LF # cleaned text) a]\<rparr>"
  | (skip) "append_step R st text = st"
      "active_uri st = None \<or> active_uri st = Some [] \<or> \<not> has_entered_body st \<or> is_noise R text"
proof (cases "active_uri st")
  case None
  then have "append_step R st text = st" by (simp add: append_step_def)
  with None show ?thesis by (rule_tac skip) simp_all
next
  case (Some a)
  show ?thesis
  proof (cases "has_entered_body st \<and> a \<noteq> [] \<and> \<not> is_noise R text")
    case True
    with Some have "append_step R st text = st\<lparr>cur := cur st @ [AppendContent (LF # cleaned text) a]\<rparr>"
      by (simp add: append_step_def execute_def)
    with Some True show ?thesis by (intro append [of a]) simp_all
  next
    case False
    with Some have "append_step R st text = st" by (auto simp add: append_step_def)
    with Some False show ?thesis by (intro skip) auto
  qed
qed

lemma article_step_header:
  assumes "article_match text = Some g"
    and "article_number R g = Inr a"
  shows "article_step R doc st text =
     Inr (st\<lparr>has_entered_body := True,
              current_c_uri := Some (chapter_or_first R doc (current_c_uri st)),
              active_uri := Some (article_uri (chapter_or_first R doc (current_c_uri st)) a),
              cur := cur st @ [UpsertNode doc
                 (article_uri (chapter_or_first R doc (current_c_uri st)) a)
                 ''section'' a text
                 (Some (chapter_or_first R doc (current_c_uri st)))]\<rparr>)"
  unfolding article_step_def using assms
  by (simp add: save_node_def execute_def Let_def)

lemma article_step_error:
  assumes "article_match text = Some g"
    and "article_number R g = Inl e"
  shows "article_step R doc st text = Inl e"
  unfolding article_step_def using assms by simp

lemma article_step_content:
  assumes "article_match text = None"
  shows "article_step R doc st text = Inr (append_step R st text)"
  unfolding article_step_def using assms by simp

lemma article_step_cases:
  assumes "article_step R doc st text = Inr st'"
  obtains
    (article) cu a g where
      "article_match text = Some g"
      "article_number R g = Inr a"
      "cu = (chapter_or_first R doc (current_c_uri st))"
      "st' = st\<lparr>has_entered_body := True, current_c_uri := Some cu,
                active_uri := Some (article_uri cu a),
                cur := cur st @ [UpsertNode doc (article_uri cu a) ''section'' a text (Some cu)]\<rparr>"
  | (append) a where
      "article_match text = None" "active_uri st = Some a" "a \<noteq> []" "has_entered_body st"
      "\<not> is_noise R text"
      "st' = st\<lparr>cur := cur st @ [AppendContent (LF # cleaned text) a]\<rparr>"
  | (skip) "article_match text = None" "st' = st"
      "active_uri st = None \<or> active_uri st = Some [] \<or> \<not> has_entered_body st \<or> is_noise R text"
proof (cases "article_match text")
  case None
  with assms have eq: "st' = append_step R st text" by (simp add: article_step_content)
  show ?thesis
  proof (cases rule: append_step_cases [of st R "text"])
    case (append a)
    with None eq show ?thesis by (intro that(2) [of a]) simp_all
  next
    case skip
    with None eq show ?thesis by (intro that(3)) simp_all
  qed
next
  case (Some g)
  show ?thesis
  proof (cases "article_number R g")
    case (Inl e)
    from article_step_error [OF Some Inl] assms show ?thesis by simp
  next
    case (Inr a)
    from article_step_header [OF Some Inr, of doc st] assms
    show ?thesis using Some Inr by (intro that(1) [of g a]) auto
  qed
qed

lemma step_toc:
  assumes "chapter_match text = Some g" "\<not> has_entered_body st"
    "contains MULU text \<or> contains DOTS text"
  shows "step R doc st text = Inr st"
  unfolding step_def using assms by (auto simp: Let_def)

lemma step_chapter:
  assumes "chapter_match text = Some g"
    "has_entered_body st \<or> \<not> (contains MULU text \<or> contains DOTS text)"
    "section_split text = None"
  shows "step R doc st text =
     Inr (st\<lparr>current_c_uri := Some (chapter_uri R doc (cn_to_int (Some g))),
              active_uri := Some (chapter_uri R doc (cn_to_int (Some g))),
              cur := cur st @ [UpsertNode doc (chapter_uri R doc (cn_to_int (Some g)))
                                 ''chapter'' (cn_to_int (Some g)) text None]\<rparr>)"
  unfolding step_def using assms by (auto simp: Let_def save_node_def execute_def)

lemma step_merged:
  assumes "chapter_match text = Some g"
    "has_entered_body st \<or> \<not> (contains MULU text \<or> contains DOTS text)"
    "section_split text = Some i"
  shows "step R doc st text =
     article_step R doc
       (st\<lparr>current_c_uri := Some (chapter_uri R doc (cn_to_int (Some g))),
           active_uri := Some (chapter_uri R doc (cn_to_int (Some g))),
           cur := cur st @ [UpsertNode doc (chapter_uri R doc (cn_to_int (Some g)))
                              ''chapter'' (cn_to_int (Some g)) (strip (take i text)) None]\<rparr>)
       (strip (drop i text))"
  unfolding step_def using assms by (auto simp: Let_def save_node_def execute_def)

lemma step_other:
  assumes "chapter_match text = None"
  shows "step R doc st text = article_step R doc st text"
  unfolding step_def using assms by simp


lemmas pass_eval =
  process_item_def step_def article_step_def append_step_def chapter_match_def
  article_match_def header_match_def cn_numeral_char_def article_numeral_char_def
  is_ascii_digit_def strip_def is_space_def MULU_def DOTS_def split_here_def is_noise_def
  page_of_def page_marker_def plus_def ZHENGJIANHUI_def YEMA_def ZHONGHUA_def cleaned_def
  save_node_def execute_def chapter_uri_def article_uri_def asc_def py_str_def
  str_nat.simps cpython_def lower_ascii_def article_number_def chapter_or_first_def
  isdigit_def py_int_def dec_value_def cn_to_int_def cn_char_def CN_NUM_def start_def
  Let_def commit_def parse_and_store_def


section \<open>Rows after a statement\<close>

lemma commit_snoc: "commit db (L @ [s]) = exec (commit db L) s"
  by (simp add: commit_def)

lemma exec_upsert_same:
  "legal_nodes (exec db (UpsertNode d u l n c p)) u =
     Some (case legal_nodes db u of
             None \<Rightarrow> \<lparr>doc_id = d, label = l, num_val = n, content = c, parent_uri = p\<rparr>
           | Some r \<Rightarrow> \<lparr>doc_id = doc_id r, label = l, num_val = num_val r, content = c,
                        parent_uri = p\<rparr>)"
  by (cases "legal_nodes db u") simp_all

lemma exec_upsert_other:
  "u' \<noteq> u \<Longrightarrow> legal_nodes (exec db (UpsertNode d u l n c p)) u' = legal_nodes db u'"
  by simp

lemma exec_upsert_metadata:
  "legal_metadata (exec db (UpsertNode d u l n c p)) = legal_metadata db"
  by simp

lemma exec_append_same:
  "legal_nodes (exec db (AppendContent f u)) u =
     map_option (\<lambda>r. r\<lparr>content := content r @ f\<rparr>) (legal_nodes db u)"
  by (cases "legal_nodes db u") simp_all

lemma exec_append_other:
  "u' \<noteq> u \<Longrightarrow> legal_nodes (exec db (AppendContent f u)) u' = legal_nodes db u'"
  by (cases "legal_nodes db u") simp_all

lemma exec_append_metadata:
  "legal_metadata (exec db (AppendContent f u)) = legal_metadata db"
  by (cases "legal_nodes db u") simp_all

lemma exec_metadata_nodes:
  "legal_nodes (exec db (UpsertMetadata d t c p)) = legal_nodes db"
  by simp

lemma exec_metadata_same:
  "legal_metadata (exec db (UpsertMetadata d t c p)) d =
     Some (case legal_metadata db d of
             None \<Rightarrow> \<lparr>title = t, creator = c, pub_date = p\<rparr>
           | Some m \<Rightarrow> \<lparr>title = t, creator = creator m, pub_date = pub_date m\<rparr>)"
  by (cases "legal_metadata db d") simp_all

lemma exec_metadata_other:
  "d' \<noteq> d \<Longrightarrow> legal_metadata (exec db (UpsertMetadata d t c p)) d' = legal_metadata db d'"
  by simp

lemmas exec_rows =
  exec_upsert_same exec_upsert_other exec_upsert_metadata exec_append_same exec_append_other
  exec_append_metadata exec_metadata_nodes exec_metadata_same exec_metadata_other

declare exec.simps [simp del]

text \<open>
  C9: saving a node creates the row of a URI that has none, with the five values given;
  on a URI that has a row it replaces \<open>content\<close>, \<open>parent_uri\<close> and \<open>label\<close> and leaves
  \<open>doc_id\<close> and \<open>num_val\<close> as they are, so the content is the new header text whatever
  had been accumulated; every other row and the metadata are untouched. The state of
  the scan is any state, so this holds as well for a second header block of a pass that
  derives a URI saved earlier in it.
\<close>

theorem save_node_upsert_frame:
  "legal_nodes (commit db (cur (save_node st doc uri lab num cont parent))) uri =
     Some (case legal_nodes (commit db (cur st)) uri of
             None \<Rightarrow> \<lparr>doc_id = doc, label = lab, num_val = num, content = cont,
                       parent_uri = parent\<rparr>
           | Some r \<Rightarrow> \<lparr>doc_id = doc_id r, label = lab, num_val = num_val r, content = cont,
                        parent_uri = parent\<rparr>) \<and>
   (\<forall>u. u \<noteq> uri \<longrightarrow>
      legal_nodes (commit db (cur (save_node st doc uri lab num cont parent))) u =
      legal_nodes (commit db (cur st)) u) \<and>
   legal_metadata (commit db (cur (save_node st doc uri lab num cont parent))) =
     legal_metadata (commit db (cur st))"
  by (simp add: save_node_def execute_def commit_snoc exec_rows)

theorem save_node_upsert_frame_witness:
  "scan cpython GSF (start GSF gsf_metadata)
     [(Some [DI, YI, TIAO, SPC, 65], 0), (Some [66], 0)] =
   Inr \<lparr>current_c_uri = Some (asc ''/gsf/c1''), active_uri = Some (asc ''/gsf/c1/a1''),
        has_entered_body = True,
        cur = [UpsertMetadata GSF (title gsf_metadata) (creator gsf_metadata)
                 (pub_date gsf_metadata),
               UpsertNode GSF (asc ''/gsf/c1/a1'') ''section'' 1
                 [DI, YI, TIAO, SPC, 65] (Some (asc ''/gsf/c1'')),
               AppendContent [LF, 66] (asc ''/gsf/c1/a1'')]\<rparr> \<and>
   legal_nodes (commit empty_db
      [UpsertMetadata GSF (title gsf_metadata) (creator gsf_metadata) (pub_date gsf_metadata),
       UpsertNode GSF (asc ''/gsf/c1/a1'') ''section'' 1
         [DI, YI, TIAO, SPC, 65] (Some (asc ''/gsf/c1'')),
       AppendContent [LF, 66] (asc ''/gsf/c1/a1'')]) (asc ''/gsf/c1/a1'') =
     Some \<lparr>doc_id = GSF, label = ''section'', num_val = 1,
            content = [DI, YI, TIAO, SPC, 65, LF, 66], parent_uri = Some (asc ''/gsf/c1'')\<rparr> \<and>
   legal_nodes (commit empty_db
      (cur (save_node
         \<lparr>current_c_uri = Some (asc ''/gsf/c1''), active_uri = Some (asc ''/gsf/c1/a1''),
          has_entered_body = True,
          cur = [UpsertMetadata GSF (title gsf_metadata) (creator gsf_metadata)
                   (pub_date gsf_metadata),
                 UpsertNode GSF (asc ''/gsf/c1/a1'') ''section'' 1
                   [DI, YI, TIAO, SPC, 65] (Some (asc ''/gsf/c1'')),
                 AppendContent [LF, 66] (asc ''/gsf/c1/a1'')]\<rparr>
         (asc ''gsf'') (asc ''/gsf/c1/a1'') ''section'' 7 [DI, YI, TIAO, SPC, 67]
         (Some (asc ''/gsf/c1''))))) (asc ''/gsf/c1/a1'') =
     Some \<lparr>doc_id = GSF, label = ''section'', num_val = 1,
            content = [DI, YI, TIAO, SPC, 67], parent_uri = Some (asc ''/gsf/c1'')\<rparr>"
  using save_node_upsert_frame
    [of empty_db
        "\<lparr>current_c_uri = Some (asc ''/gsf/c1''), active_uri = Some (asc ''/gsf/c1/a1''),
          has_entered_body = True,
          cur = [UpsertMetadata GSF (title gsf_metadata) (creator gsf_metadata)
                   (pub_date gsf_metadata),
                 UpsertNode GSF (asc ''/gsf/c1/a1'') ''section'' 1
                   [DI, YI, TIAO, SPC, 65] (Some (asc ''/gsf/c1'')),
                 AppendContent [LF, 66] (asc ''/gsf/c1/a1'')]\<rparr>"
        "asc ''gsf''" "asc ''/gsf/c1/a1''" "''section''" 7 "[DI, YI, TIAO, SPC, 67]"
        "Some (asc ''/gsf/c1'')"]
  by (simp add: pass_eval exec.simps GSF_def empty_db_def)

section \<open>Headers, the merged boundary and the cases of a step\<close>

lemma not_space_marks: "\<not> is_space DI" "\<not> is_space TIAO" "\<not> is_space ZHANG"
  by (simp_all add: is_space_def)

lemma class_closers: "\<not> cn_numeral_char ZHANG" "\<not> article_numeral_char TIAO"
  by (simp_all add: cn_numeral_char_def article_numeral_char_def is_ascii_digit_def)

lemma rstrip_keep:
  assumes "\<not> is_space y"
  shows "rev (dropWhile is_space (rev (xs @ y # ys))) = xs @ y # rev (dropWhile is_space (rev ys))"
  using assms by (simp add: dropWhile_append)

lemma header_match_iff:
  assumes "\<not> cls close"
  shows "header_match cls close t = Some g \<longleftrightarrow>
         (\<exists>rest. t = DI # g @ close # rest \<and> g \<noteq> [] \<and> list_all cls g)"
proof
  assume h: "header_match cls close t = Some g"
  then obtain r where t: "t = DI # r" and g: "g = takeWhile cls r" "g \<noteq> []"
    and d: "case dropWhile cls r of [] \<Rightarrow> False | d # _ \<Rightarrow> d = close"
    by (auto simp: header_match_def split: list.splits if_splits)
  from d obtain rest where rest: "dropWhile cls r = close # rest"
    by (cases "dropWhile cls r") auto
  have "r = takeWhile cls r @ dropWhile cls r" by simp
  with rest g have "r = g @ close # rest" by simp
  moreover have "list_all cls g" unfolding g by (simp add: list_all_iff) (meson set_takeWhileD)
  ultimately show "\<exists>rest. t = DI # g @ close # rest \<and> g \<noteq> [] \<and> list_all cls g"
    using t g by blast
next
  assume "\<exists>rest. t = DI # g @ close # rest \<and> g \<noteq> [] \<and> list_all cls g"
  then obtain rest where t: "t = DI # g @ close # rest" and g: "g \<noteq> []" "list_all cls g"
    by blast
  from g(2) have a: "\<And>x. x \<in> set g \<Longrightarrow> cls x" by (simp add: list_all_iff)
  from a assms have "takeWhile cls (g @ close # rest) = g"
    by (simp add: takeWhile_append2)
  moreover from a assms have "dropWhile cls (g @ close # rest) = close # rest"
    by (simp add: dropWhile_append2)
  ultimately show "header_match cls close t = Some g"
    using t g by (simp add: header_match_def)
qed

lemma header_match_strip:
  assumes "\<not> cls close" "\<not> is_space close" "header_match cls close t = Some g"
  shows "header_match cls close (strip t) = Some g"
proof -
  from assms(3) obtain rest where t: "t = DI # g @ close # rest" and g: "g \<noteq> []" "list_all cls g"
    using header_match_iff [of cls close t g] assms(1) by blast
  have "strip t = rev (dropWhile is_space (rev ((DI # g) @ close # rest)))"
    unfolding strip_def t using not_space_marks(1) by simp
  also have "\<dots> = (DI # g) @ close # rev (dropWhile is_space (rev rest))"
    using assms(2) by (rule rstrip_keep)
  finally have "strip t = DI # g @ close # rev (dropWhile is_space (rev rest))" by simp
  with g show ?thesis
    using header_match_iff [of cls close "strip t" g] assms(1) by blast
qed

lemma strip_dropWhile: "strip (dropWhile is_space t) = strip t"
  by (simp add: strip_def)

lemma section_split_Some:
  "section_split t = Some i \<Longrightarrow> split_here (drop i t) \<and> i < length t"
proof (induction t arbitrary: i)
  case Nil
  then show ?case by simp
next
  case (Cons c cs)
  show ?case
  proof (cases "split_here (c # cs)")
    case True
    with Cons.prems show ?thesis by simp
  next
    case False
    with Cons.prems obtain j where "section_split cs = Some j" "i = Suc j" by auto
    with Cons.IH [of j] show ?thesis by simp
  qed
qed

lemma merged_suffix:
  assumes "section_split t = Some i"
  shows "\<exists>g. article_match (strip (drop i t)) = Some g"
proof -
  from section_split_Some [OF assms] have "split_here (drop i t)" by simp
  then obtain g where "article_match (dropWhile is_space (drop i t)) = Some g"
    by (auto simp: split_here_def split: list.splits)
  then have "article_match (strip (dropWhile is_space (drop i t))) = Some g"
    unfolding article_match_def
    using header_match_strip [of article_numeral_char TIAO] class_closers(2) not_space_marks(2)
    by blast
  then show ?thesis by (simp add: strip_dropWhile)
qed

lemma chapter_uri_nonempty: "chapter_uri R doc n \<noteq> []"
  by (simp add: chapter_uri_def)

lemma chapter_or_first_Some: "chapter_or_first R doc (Some (chapter_uri R doc n)) = chapter_uri R doc n"
  by (simp add: chapter_or_first_def chapter_uri_nonempty)

lemma step_merged_article:
  assumes "chapter_match txt = Some g"
    "has_entered_body st \<or> \<not> (contains MULU txt \<or> contains DOTS txt)"
    "section_split txt = Some i"
    "article_match (strip (drop i txt)) = Some g'"
    "article_number R g' = Inr a"
  shows "step R doc st txt =
     Inr (st\<lparr>has_entered_body := True,
              current_c_uri := Some (chapter_uri R doc (cn_to_int (Some g))),
              active_uri := Some (article_uri (chapter_uri R doc (cn_to_int (Some g))) a),
              cur := cur st @
                [UpsertNode doc (chapter_uri R doc (cn_to_int (Some g))) ''chapter''
                   (cn_to_int (Some g)) (strip (take i txt)) None,
                 UpsertNode doc (article_uri (chapter_uri R doc (cn_to_int (Some g))) a)
                   ''section'' a (strip (drop i txt))
                   (Some (chapter_uri R doc (cn_to_int (Some g))))]\<rparr>)"
  by (simp add: step_merged [OF assms(1-3)] article_step_header [OF assms(4,5)]
      chapter_or_first_Some)

lemma step_merged_error:
  assumes "chapter_match txt = Some g"
    "has_entered_body st \<or> \<not> (contains MULU txt \<or> contains DOTS txt)"
    "section_split txt = Some i"
    "article_match (strip (drop i txt)) = Some g'"
    "article_number R g' = Inl e"
  shows "step R doc st txt = Inl e"
  by (simp add: step_merged [OF assms(1-3)] article_step_error [OF assms(4,5)])

lemma step_cases:
  assumes "step R doc st txt = Inr st'"
  obtains
    (toc) g where "chapter_match txt = Some g" "\<not> has_entered_body st"
      "contains MULU txt \<or> contains DOTS txt" "st' = st"
  | (chap) g where "chapter_match txt = Some g"
      "has_entered_body st \<or> \<not> (contains MULU txt \<or> contains DOTS txt)"
      "section_split txt = None"
      "st' = st\<lparr>current_c_uri := Some (chapter_uri R doc (cn_to_int (Some g))),
                active_uri := Some (chapter_uri R doc (cn_to_int (Some g))),
                cur := cur st @ [UpsertNode doc (chapter_uri R doc (cn_to_int (Some g)))
                                   ''chapter'' (cn_to_int (Some g)) txt None]\<rparr>"
  | (merged) g i g' a where "chapter_match txt = Some g"
      "has_entered_body st \<or> \<not> (contains MULU txt \<or> contains DOTS txt)"
      "section_split txt = Some i"
      "article_match (strip (drop i txt)) = Some g'"
      "article_number R g' = Inr a"
      "st' = st\<lparr>has_entered_body := True,
              current_c_uri := Some (chapter_uri R doc (cn_to_int (Some g))),
              active_uri := Some (article_uri (chapter_uri R doc (cn_to_int (Some g))) a),
              cur := cur st @
                [UpsertNode doc (chapter_uri R doc (cn_to_int (Some g))) ''chapter''
                   (cn_to_int (Some g)) (strip (take i txt)) None,
                 UpsertNode doc (article_uri (chapter_uri R doc (cn_to_int (Some g))) a)
                   ''section'' a (strip (drop i txt))
                   (Some (chapter_uri R doc (cn_to_int (Some g))))]\<rparr>"
  | (article) g a where "chapter_match txt = None" "article_match txt = Some g"
      "article_number R g = Inr a"
      "st' = st\<lparr>has_entered_body := True,
                current_c_uri := Some (chapter_or_first R doc (current_c_uri st)),
                active_uri := Some (article_uri (chapter_or_first R doc (current_c_uri st)) a),
                cur := cur st @
                  [UpsertNode doc (article_uri (chapter_or_first R doc (current_c_uri st)) a)
                     ''section'' a txt (Some (chapter_or_first R doc (current_c_uri st)))]\<rparr>"
  | (append) a where "chapter_match txt = None" "article_match txt = None"
      "active_uri st = Some a" "a \<noteq> []" "has_entered_body st" "\<not> is_noise R txt"
      "st' = st\<lparr>cur := cur st @ [AppendContent (LF # cleaned txt) a]\<rparr>"
  | (skip) "chapter_match txt = None" "article_match txt = None" "st' = st"
      "active_uri st = None \<or> active_uri st = Some [] \<or> \<not> has_entered_body st \<or> is_noise R txt"
proof (cases "chapter_match txt")
  case None
  with assms have a: "article_step R doc st txt = Inr st'" by (simp add: step_other)
  show ?thesis
  proof (cases rule: article_step_cases [OF a])
    case (1 cu a g)
    with None show ?thesis by (intro article [of g a]) simp_all
  next
    case (2 a)
    with None show ?thesis by (intro append [of a]) simp_all
  next
    case 3
    with None show ?thesis by (intro skip) simp_all
  qed
next
  case (Some g)
  note cm = Some
  show ?thesis
  proof (cases "\<not> has_entered_body st \<and> (contains MULU txt \<or> contains DOTS txt)")
    case True
    then have "step R doc st txt = Inr st" using cm by (intro step_toc [of "txt" g]) auto
    with True cm assms show ?thesis by (intro toc [of g]) auto
  next
    case False
    then have gate: "has_entered_body st \<or> \<not> (contains MULU txt \<or> contains DOTS txt)" by blast
    show ?thesis
    proof (cases "section_split txt")
      case None
      from step_chapter [OF cm gate None, of R doc] assms None cm gate
      show ?thesis by (intro chap [of g]) simp_all
    next
      case (Some i)
      from merged_suffix [OF Some] obtain g' where g': "article_match (strip (drop i txt)) = Some g'"
        by blast
      show ?thesis
      proof (cases "article_number R g'")
        case (Inl e)
        from step_merged_error [OF cm gate Some g' Inl, of doc] assms show ?thesis by simp
      next
        case (Inr a)
        from step_merged_article [OF cm gate Some g' Inr, of doc] assms cm gate Some g' Inr
        show ?thesis by (intro merged [of g i g' a]) simp_all
      qed
    qed
  qed
qed

section \<open>The metadata record\<close>

lemma step_extends:
  assumes "step R doc st txt = Inr st'"
  shows "\<exists>L. cur st' = cur st @ L \<and> list_all is_node_statement L"
  by (cases rule: step_cases [OF assms]) (simp_all add: is_node_statement_def)

lemma process_item_extends:
  assumes "process_item R doc st it = Inr st'"
  shows "\<exists>L. cur st' = cur st @ L \<and> list_all is_node_statement L"
proof (cases "fst it")
  case None
  with assms show ?thesis by (simp add: process_item_def)
next
  case (Some t)
  show ?thesis
  proof (cases "t = []")
    case True
    with Some assms show ?thesis by (simp add: process_item_def)
  next
    case False
    with Some assms have "step R doc st (strip t) = Inr st'" by (simp add: process_item_def)
    then show ?thesis by (rule step_extends)
  qed
qed

lemma scan_extends:
  "scan R doc st its = Inr st' \<Longrightarrow> \<exists>L. cur st' = cur st @ L \<and> list_all is_node_statement L"
proof (induction its arbitrary: st)
  case Nil
  then show ?case by simp
next
  case (Cons it its)
  from Cons.prems obtain st1 where 1: "process_item R doc st it = Inr st1"
    and 2: "scan R doc st1 its = Inr st'"
    by (auto split: sum.splits)
  from process_item_extends [OF 1] obtain L1 where L1: "cur st1 = cur st @ L1" "list_all is_node_statement L1"
    by blast
  from Cons.IH [OF 2] obtain L2 where L2: "cur st' = cur st1 @ L2" "list_all is_node_statement L2"
    by blast
  from L1 L2 have "cur st' = cur st @ (L1 @ L2) \<and> list_all is_node_statement (L1 @ L2)" by simp
  then show ?case by blast
qed

lemma parse_and_store_cases:
  assumes "parse_and_store R db its doc md = Inr db'"
  obtains st L where "scan R doc (start doc md) its = Inr st"
    "cur st = UpsertMetadata doc (title md) (creator md) (pub_date md) # L"
    "list_all is_node_statement L" "db' = commit db (cur st)"
proof -
  from assms obtain st where st: "scan R doc (start doc md) its = Inr st"
    and db': "db' = commit db (cur st)"
    by (auto simp: parse_and_store_def split: sum.splits)
  from scan_extends [OF st] obtain L where L: "cur st = cur (start doc md) @ L"
    "list_all is_node_statement L"
    by blast
  then have "cur st = UpsertMetadata doc (title md) (creator md) (pub_date md) # L"
    by (simp add: start_def)
  with st L(2) db' show ?thesis by (intro that [of st L]) simp_all
qed

text \<open>
  C10 (as amended): \<open>parse_and_store\<close> writes the metadata record keyed by \<open>doc_id\<close>. For a
  \<open>doc_id\<close> without a record it stores the title, the creator and the date given; for
  a \<open>doc_id\<close> that has one it replaces the title and keeps the stored creator and date.
  The records of other documents are untouched.
\<close>

theorem metadata_upsert_title_only:
  assumes "parse_and_store R db its doc md = Inr db'"
  shows "legal_metadata db' doc =
           Some (case legal_metadata db doc of
                   None \<Rightarrow> \<lparr>title = title md, creator = creator md, pub_date = pub_date md\<rparr>
                 | Some m \<Rightarrow> \<lparr>title = title md, creator = creator m, pub_date = pub_date m\<rparr>) \<and>
         (\<forall>d. d \<noteq> doc \<longrightarrow> legal_metadata db' d = legal_metadata db d)"
proof -
  from assms obtain st L where "scan R doc (start doc md) its = Inr st"
    "cur st = UpsertMetadata doc (title md) (creator md) (pub_date md) # L"
    "list_all is_node_statement L" "db' = commit db (cur st)"
    by (rule parse_and_store_cases)
  then have "legal_metadata db' =
     legal_metadata (exec db (UpsertMetadata doc (title md) (creator md) (pub_date md)))"
    by (simp add: commit_Cons commit_node_metadata)
  then show ?thesis by (simp add: exec_rows)
qed

theorem metadata_upsert_title_only_witness:
  "parse_and_store cpython stored_db [] GSF gsf_metadata =
     Inr (exec stored_db (UpsertMetadata GSF (title gsf_metadata) (creator gsf_metadata)
            (pub_date gsf_metadata))) \<and>
   legal_metadata (exec stored_db (UpsertMetadata GSF (title gsf_metadata)
      (creator gsf_metadata) (pub_date gsf_metadata))) GSF =
     Some \<lparr>title = title gsf_metadata, creator = asc ''NPC'', pub_date = asc ''2018-10-26''\<rparr> \<and>
   legal_metadata (exec stored_db (UpsertMetadata GSF (title gsf_metadata)
      (creator gsf_metadata) (pub_date gsf_metadata))) (asc ''FXQF'') = None"
proof -
  have p: "parse_and_store cpython stored_db [] GSF gsf_metadata =
     Inr (exec stored_db (UpsertMetadata GSF (title gsf_metadata) (creator gsf_metadata)
            (pub_date gsf_metadata)))"
    by (simp add: parse_and_store_def start_def commit_def)
  have n: "asc ''FXQF'' \<noteq> GSF" by (simp add: asc_def GSF_def)
  from metadata_upsert_title_only [OF p] n p show ?thesis
    by (simp add: stored_db_def)
qed

text \<open>
  C10 as the claim states it fails: a second run with a new creator and a new date
  leaves the creator and the date of the first.
\<close>

theorem metadata_update_counterexample:
  "parse_and_store cpython stored_db [] GSF gsf_metadata =
     Inr (exec stored_db (UpsertMetadata GSF (title gsf_metadata) (creator gsf_metadata)
            (pub_date gsf_metadata))) \<and>
   legal_metadata (exec stored_db (UpsertMetadata GSF (title gsf_metadata)
      (creator gsf_metadata) (pub_date gsf_metadata))) GSF =
     Some \<lparr>title = title gsf_metadata, creator = asc ''NPC'', pub_date = asc ''2018-10-26''\<rparr> \<and>
   creator gsf_metadata \<noteq> asc ''NPC'' \<and> pub_date gsf_metadata \<noteq> asc ''2018-10-26'' \<and>
   legal_metadata (exec stored_db (UpsertMetadata GSF (title gsf_metadata)
      (creator gsf_metadata) (pub_date gsf_metadata))) GSF \<noteq> Some gsf_metadata"
  by (simp add: parse_and_store_def start_def commit_def stored_db_def exec.simps
      gsf_metadata_def asc_def)

section \<open>Suppression of the table of contents\<close>





section \<open>Numerals in ASCII digits\<close>

lemma dec_value_snoc: "dec_value (s @ [c]) = 10 * dec_value s + (int c - 48)"
  by (simp add: dec_value_def)

lemma dec_value_str_nat: "dec_value (str_nat n) = int n"
proof (induction n rule: str_nat.induct)
  case (1 n)
  show ?case
  proof (cases "n < 10")
    case True
    then show ?thesis by (simp add: str_nat.simps [of n] dec_value_def)
  next
    case False
    with 1 have "dec_value (str_nat (n div 10)) = int (n div 10)" by simp
    with False have "dec_value (str_nat n) = 10 * int (n div 10) + int (n mod 10)"
      by (simp add: str_nat.simps [of n] dec_value_snoc)
    also have "\<dots> = int n" using int_div_mod_10 [of n] by simp
    finally show ?thesis .
  qed
qed

lemma cn_char_not_digit: "cn_numeral_char c \<Longrightarrow> \<not> is_ascii_digit c"
  by (auto simp: cn_numeral_char_def is_ascii_digit_def)

lemma chapter_group_not_digit:
  assumes "chapter_match txt = Some g"
  shows "\<not> isdigit g"
proof -
  from assms obtain rest where g: "g \<noteq> []" "list_all cn_numeral_char g"
    unfolding chapter_match_def
    using header_match_iff [of cn_numeral_char ZHANG "txt" g] class_closers(1) by blast
  then obtain c cs where "g = c # cs" "cn_numeral_char c" by (cases g) auto
  then show ?thesis by (simp add: isdigit_def cn_char_not_digit)
qed

lemma digit_header:
  assumes "d \<noteq> []" "list_all is_ascii_digit d"
  shows "article_match (DI # d @ TIAO # rest) = Some d"
    and "chapter_match (DI # d @ TIAO # rest) = None"
proof -
  from assms(2) have "list_all article_numeral_char d"
    by (simp add: list_all_iff article_numeral_char_def)
  with assms(1) show "article_match (DI # d @ TIAO # rest) = Some d"
    unfolding article_match_def
    using header_match_iff [of article_numeral_char TIAO "DI # d @ TIAO # rest" d]
      class_closers(2) by blast
  from assms obtain c cs where d: "d = c # cs" "is_ascii_digit c" by (cases d) auto
  then have "\<not> cn_numeral_char c" using cn_char_not_digit by blast
  with d show "chapter_match (DI # d @ TIAO # rest) = None"
    by (simp add: chapter_match_def header_match_def)
qed

text \<open>
  C7: the article number is \<open>int\<close> of the numeral when the numeral is all ASCII digits,
  and \<open>cn_to_int\<close> of it only otherwise; the numeral of a chapter header is never all
  digits, so \<open>cn_to_int\<close> is the right reading there. \<open>int\<close> reads a decimal rendering
  back to its number, and a header that begins with the ordinal prefix, ASCII digits
  and the article mark is saved as an article whose number is the value of the digits.
\<close>

theorem ascii_digit_numerals:
  "(isdigit g \<longrightarrow> article_number R g = py_int R g) \<and>
   (\<not> isdigit g \<longrightarrow> article_number R g = Inr (cn_to_int (Some g))) \<and>
   (chapter_match txt = Some g \<longrightarrow> \<not> isdigit g) \<and>
   dec_value (py_str (int n)) = int n \<and>
   (d \<noteq> [] \<and> list_all is_ascii_digit d \<and> py_int R d = Inr v \<longrightarrow>
      v = dec_value d \<and>
      chapter_match (DI # d @ TIAO # rest) = None \<and>
      article_match (DI # d @ TIAO # rest) = Some d \<and>
      step R doc st (DI # d @ TIAO # rest) =
        Inr (st\<lparr>has_entered_body := True,
                 current_c_uri := Some (chapter_or_first R doc (current_c_uri st)),
                 active_uri := Some (article_uri (chapter_or_first R doc (current_c_uri st)) v),
                 cur := cur st @
                   [UpsertNode doc (article_uri (chapter_or_first R doc (current_c_uri st)) v)
                      ''section'' v (DI # d @ TIAO # rest)
                      (Some (chapter_or_first R doc (current_c_uri st)))]\<rparr>))"
proof (intro conjI impI)
  show "dec_value (py_str (int n)) = int n"
    by (simp add: py_str_def dec_value_str_nat)
next
  assume "chapter_match txt = Some g"
  then show "\<not> isdigit g" by (rule chapter_group_not_digit)
next
  assume a: "d \<noteq> [] \<and> list_all is_ascii_digit d \<and> py_int R d = Inr v"
  then show "v = dec_value d" by (auto simp: py_int_def split: if_splits)
  from a digit_header [of d rest]
  show m: "chapter_match (DI # d @ TIAO # rest) = None"
    "article_match (DI # d @ TIAO # rest) = Some d" by simp_all
  from a have "article_number R d = Inr v" by (simp add: article_number_def isdigit_def)
  from article_step_header [OF m(2) this, of doc st] step_other [OF m(1), of R doc st]
  show "step R doc st (DI # d @ TIAO # rest) =
        Inr (st\<lparr>has_entered_body := True,
                 current_c_uri := Some (chapter_or_first R doc (current_c_uri st)),
                 active_uri := Some (article_uri (chapter_or_first R doc (current_c_uri st)) v),
                 cur := cur st @
                   [UpsertNode doc (article_uri (chapter_or_first R doc (current_c_uri st)) v)
                      ''section'' v (DI # d @ TIAO # rest)
                      (Some (chapter_or_first R doc (current_c_uri st)))]\<rparr>)"
    by simp
qed (simp_all add: article_number_def)

theorem ascii_digit_numerals_witness:
  "isdigit [49, 50] \<and> article_number cpython [49, 50] = Inr 12 \<and>
   \<not> isdigit [SHI, ER] \<and> article_number cpython [SHI, ER] = Inr 12 \<and>
   dec_value (py_str (int 12)) = 12 \<and>
   list_all is_ascii_digit [49, 50] \<and> py_int cpython [49, 50] = Inr 12 \<and>
   step cpython GSF (start GSF gsf_metadata) (DI # [49, 50] @ TIAO # [SPC, 65]) =
     Inr \<lparr>current_c_uri = Some (asc ''/gsf/c1''), active_uri = Some (asc ''/gsf/c1/a12''),
          has_entered_body = True,
          cur = [UpsertMetadata GSF (title gsf_metadata) (creator gsf_metadata)
                   (pub_date gsf_metadata),
                 UpsertNode GSF (asc ''/gsf/c1/a12'') ''section'' 12
                   [DI, 49, 50, TIAO, SPC, 65] (Some (asc ''/gsf/c1''))]\<rparr>"
proof -
  have p: "py_int cpython [49, 50] = Inr 12"
    by (simp add: py_int_def dec_value_def cpython_def)
  have c: "cn_to_int (Some [SHI, ER]) = 12"
    by (simp add: cn_to_int_def cn_char_def CN_NUM_def)
  have u: "chapter_or_first cpython GSF None = asc ''/gsf/c1''"
    "article_uri (asc ''/gsf/c1'') 12 = asc ''/gsf/c1/a12''"
    by (simp_all add: pass_eval GSF_def)
  from ascii_digit_numerals [of "[49, 50]" cpython "[]" 12 "[49, 50]" 12 "[SPC, 65]" GSF
      "start GSF gsf_metadata"]
    ascii_digit_numerals [of "[SHI, ER]" cpython "[]" 12 "[49, 50]" 12 "[SPC, 65]" GSF
      "start GSF gsf_metadata"]
  show ?thesis using p c u
    by (simp add: isdigit_def is_ascii_digit_def start_def)
qed

section \<open>Repair of a merged boundary\<close>












section \<open>Accrual of content\<close>

lemma step_content:
  assumes "has_entered_body st" "active_uri st = Some a" "a \<noteq> []"
    "chapter_match txt = None" "article_match txt = None"
  shows "step R doc st txt =
     Inr (if is_noise R txt then st
          else st\<lparr>cur := cur st @ [AppendContent (LF # cleaned txt) a]\<rparr>)"
  using assms
  by (simp add: step_other article_step_content append_step_def execute_def)

lemma scan_content_blocks:
  assumes "has_entered_body st" "active_uri st = Some a" "a \<noteq> []"
    "list_all (content_block R) its"
  shows "scan R doc st its =
     Inr (st\<lparr>cur := cur st @ map (\<lambda>it. AppendContent (fragment it) a) its\<rparr>)"
  using assms
proof (induction its arbitrary: st)
  case Nil
  then show ?case by simp
next
  case (Cons it its)
  from Cons.prems(4) obtain t where t: "fst it = Some t" "t \<noteq> []"
    "chapter_match (strip t) = None" "article_match (strip t) = None" "\<not> is_noise R (strip t)"
    by (auto simp: content_block_def split: option.splits)
  let ?st1 = "st\<lparr>cur := cur st @ [AppendContent (LF # cleaned (strip t)) a]\<rparr>"
  from step_content [OF Cons.prems(1-3) t(3,4), of R doc] t
  have p: "process_item R doc st it = Inr ?st1"
    by (simp add: process_item_def)
  have "scan R doc ?st1 its =
      Inr (?st1\<lparr>cur := cur ?st1 @ map (\<lambda>it. AppendContent (fragment it) a) its\<rparr>)"
    using Cons.prems by (intro Cons.IH) simp_all
  with p t(1) show ?case by (simp add: fragment_def)
qed

lemma commit_appends:
  assumes "legal_nodes db a = Some r"
  shows "legal_nodes (commit db (map (\<lambda>it. AppendContent (fragment it) a) its)) a =
           Some (r\<lparr>content := content r @ concat (map fragment its)\<rparr>) \<and>
         (\<forall>u. u \<noteq> a \<longrightarrow>
            legal_nodes (commit db (map (\<lambda>it. AppendContent (fragment it) a) its)) u =
            legal_nodes db u)"
  using assms
proof (induction its arbitrary: db r)
  case Nil
  then show ?case by (simp add: commit_Nil)
next
  case (Cons it its)
  let ?db1 = "exec db (AppendContent (fragment it) a)"
  from Cons.prems have 1: "legal_nodes ?db1 a = Some (r\<lparr>content := content r @ fragment it\<rparr>)"
    by (simp add: exec_rows)
  from Cons.IH [OF 1] show ?case
    by (simp add: commit_Cons exec_rows)
qed

text \<open>
  C6 (as amended): once \<open>has_entered_body\<close> is true and an active node exists, a block
  that matches neither boundary pattern and no denylist pattern is appended to the
  content of the active node, after a line feed, with its spaces (U+0020) and line feeds
  removed and every other character kept in order; a run of such blocks is appended in
  arrival order, and no other row changes. A block that matches neither boundary
  pattern and matches a denylist pattern changes nothing.
\<close>

theorem content_accrual:
  assumes "has_entered_body st" and "active_uri st = Some a" and "a \<noteq> []"
  shows "(chapter_match txt = None \<and> article_match txt = None \<longrightarrow>
            (\<not> is_noise R txt \<longrightarrow>
               step R doc st txt =
                 Inr (st\<lparr>cur := cur st @ [AppendContent (LF # cleaned txt) a]\<rparr>)) \<and>
            (is_noise R txt \<longrightarrow> step R doc st txt = Inr st)) \<and>
         cleaned txt = filter (\<lambda>c. c \<noteq> LF \<and> c \<noteq> SPC) txt \<and>
         (list_all (content_block R) its \<longrightarrow>
            scan R doc st its =
              Inr (st\<lparr>cur := cur st @ map (\<lambda>it. AppendContent (fragment it) a) its\<rparr>)) \<and>
         (\<forall>r. legal_nodes (commit db (cur st)) a = Some r \<longrightarrow>
            legal_nodes (commit db (cur st @ map (\<lambda>it. AppendContent (fragment it) a) its)) a =
              Some (r\<lparr>content := content r @ concat (map fragment its)\<rparr>) \<and>
            (\<forall>u. u \<noteq> a \<longrightarrow>
               legal_nodes (commit db (cur st @ map (\<lambda>it. AppendContent (fragment it) a) its)) u =
               legal_nodes (commit db (cur st)) u))"
proof (intro conjI impI allI)
  show "cleaned txt = filter (\<lambda>c. c \<noteq> LF \<and> c \<noteq> SPC) txt"
    by (simp add: cleaned_def conj_commute)
next
  assume "list_all (content_block R) its"
  with assms show "scan R doc st its =
      Inr (st\<lparr>cur := cur st @ map (\<lambda>it. AppendContent (fragment it) a) its\<rparr>)"
    by (rule scan_content_blocks)
next
  assume "chapter_match txt = None \<and> article_match txt = None" "\<not> is_noise R txt"
  with step_content [OF assms, of "txt" R doc]
  show "step R doc st txt = Inr (st\<lparr>cur := cur st @ [AppendContent (LF # cleaned txt) a]\<rparr>)"
    by simp
next
  assume "chapter_match txt = None \<and> article_match txt = None" "is_noise R txt"
  with step_content [OF assms, of "txt" R doc] show "step R doc st txt = Inr st" by simp
next
  fix r assume r: "legal_nodes (commit db (cur st)) a = Some r"
  from commit_appends [OF r, of its]
  show "legal_nodes (commit db (cur st @ map (\<lambda>it. AppendContent (fragment it) a) its)) a =
      Some (r\<lparr>content := content r @ concat (map fragment its)\<rparr>)"
    by (simp add: commit_append)
  fix u assume "u \<noteq> a"
  with commit_appends [OF r, of its]
  show "legal_nodes (commit db (cur st @ map (\<lambda>it. AppendContent (fragment it) a) its)) u =
      legal_nodes (commit db (cur st)) u"
    by (simp add: commit_append)
qed

lemma accrual_facts:
  "scan cpython GSF (start GSF gsf_metadata) [hd accrual_items] = Inr accrual_state"
  "list_all (content_block cpython) (tl accrual_items)"
  "map fragment (tl accrual_items) = [[LF, 0x5185, 0x5BB9, 66], [LF, 0x5185, 0x5BB9, 67]]"
  "legal_nodes (commit empty_db (cur accrual_state)) (asc ''/gsf/c1/a2'') =
     Some \<lparr>doc_id = GSF, label = ''section'', num_val = 2, content = [DI, ER, TIAO, SPC, 65],
            parent_uri = Some (asc ''/gsf/c1'')\<rparr>"
  by (simp_all add: accrual_items_def accrual_state_def content_block_def fragment_def
      pass_eval GSF_def exec.simps empty_db_def)

theorem content_accrual_witness:
  "has_entered_body accrual_state \<and> active_uri accrual_state = Some (asc ''/gsf/c1/a2'') \<and>
   asc ''/gsf/c1/a2'' \<noteq> [] \<and>
   list_all (content_block cpython) (tl accrual_items) \<and>
   scan cpython GSF accrual_state (tl accrual_items) =
     Inr (accrual_state\<lparr>cur := cur accrual_state @
            [AppendContent [LF, 0x5185, 0x5BB9, 66] (asc ''/gsf/c1/a2''),
             AppendContent [LF, 0x5185, 0x5BB9, 67] (asc ''/gsf/c1/a2'')]\<rparr>) \<and>
   legal_nodes (commit empty_db (cur accrual_state @
            [AppendContent [LF, 0x5185, 0x5BB9, 66] (asc ''/gsf/c1/a2''),
             AppendContent [LF, 0x5185, 0x5BB9, 67] (asc ''/gsf/c1/a2'')]))
      (asc ''/gsf/c1/a2'') =
     Some \<lparr>doc_id = GSF, label = ''section'', num_val = 2,
            content = [DI, ER, TIAO, SPC, 65, LF, 0x5185, 0x5BB9, 66, LF, 0x5185, 0x5BB9, 67],
            parent_uri = Some (asc ''/gsf/c1'')\<rparr>"
proof -
  have s: "has_entered_body accrual_state" "active_uri accrual_state = Some (asc ''/gsf/c1/a2'')"
    "asc ''/gsf/c1/a2'' \<noteq> []"
    by (simp_all add: accrual_state_def asc_def)
  have m: "map (\<lambda>it. AppendContent (fragment it) (asc ''/gsf/c1/a2'')) (tl accrual_items) =
      [AppendContent [LF, 0x5185, 0x5BB9, 66] (asc ''/gsf/c1/a2''),
       AppendContent [LF, 0x5185, 0x5BB9, 67] (asc ''/gsf/c1/a2'')]"
    by (simp add: accrual_items_def fragment_def strip_def is_space_def cleaned_def)
  from content_accrual [OF s, of "[]" cpython GSF "tl accrual_items" empty_db]
  show ?thesis using s accrual_facts(2,3,4) m by simp
qed

text \<open>
  C6 as the claim states it fails in three places. The content that the three blocks of
  its example leave in the article node keeps the two ideographs before B and before
  C. A tab inside a block is white space and stays. And a block that matches a denylist
  pattern and the article pattern is saved as an article, with its text as content.
\<close>

theorem content_accrual_counterexample:
  "parse_and_store cpython empty_db accrual_items GSF gsf_metadata =
     Inr (commit empty_db
       [UpsertMetadata GSF (title gsf_metadata) (creator gsf_metadata) (pub_date gsf_metadata),
        UpsertNode GSF (asc ''/gsf/c1/a2'') ''section'' 2 [DI, ER, TIAO, SPC, 65]
          (Some (asc ''/gsf/c1'')),
        AppendContent [LF, 0x5185, 0x5BB9, 66] (asc ''/gsf/c1/a2''),
        AppendContent [LF, 0x5185, 0x5BB9, 67] (asc ''/gsf/c1/a2'')]) \<and>
   legal_nodes (commit empty_db
       [UpsertMetadata GSF (title gsf_metadata) (creator gsf_metadata) (pub_date gsf_metadata),
        UpsertNode GSF (asc ''/gsf/c1/a2'') ''section'' 2 [DI, ER, TIAO, SPC, 65]
          (Some (asc ''/gsf/c1'')),
        AppendContent [LF, 0x5185, 0x5BB9, 66] (asc ''/gsf/c1/a2''),
        AppendContent [LF, 0x5185, 0x5BB9, 67] (asc ''/gsf/c1/a2'')]) (asc ''/gsf/c1/a2'') =
     Some \<lparr>doc_id = GSF, label = ''section'', num_val = 2,
            content = [DI, ER, TIAO, SPC, 65, LF, 0x5185, 0x5BB9, 66, LF, 0x5185, 0x5BB9, 67],
            parent_uri = Some (asc ''/gsf/c1'')\<rparr> \<and>
   [DI, ER, TIAO, SPC, 65, LF, 0x5185, 0x5BB9, 66, LF, 0x5185, 0x5BB9, 67] \<noteq>
     [DI, ER, TIAO, SPC, 65, LF, 66, LF, 67] \<and>
   is_space 9 \<and> cleaned [66, 9, 67] = [66, 9, 67] \<and>
   chapter_match [66, 9, 67] = None \<and> article_match [66, 9, 67] = None \<and>
   \<not> is_noise cpython [66, 9, 67] \<and>
   step cpython GSF accrual_state [66, 9, 67] =
     Inr (accrual_state\<lparr>cur := cur accrual_state @
            [AppendContent [LF, 66, 9, 67] (asc ''/gsf/c1/a2'')]\<rparr>) \<and>
   is_noise cpython noisy_header \<and> article_match noisy_header = Some [SAN] \<and>
   step cpython GSF accrual_state noisy_header =
     Inr (accrual_state\<lparr>active_uri := Some (asc ''/gsf/c1/a3''),
            cur := cur accrual_state @
              [UpsertNode GSF (asc ''/gsf/c1/a3'') ''section'' 3 noisy_header
                 (Some (asc ''/gsf/c1''))]\<rparr>)"
  by (simp add: accrual_items_def accrual_state_def noisy_header_def pass_eval GSF_def
      exec.simps empty_db_def)

section \<open>Running the pass twice\<close>

lemma upserted_append: "upserted (L @ M) = upserted L \<union> upserted M"
proof (induction L)
  case Nil
  then show ?case by simp
next
  case (Cons s L)
  then show ?case by (cases s) simp_all
qed

lemma covered_append:
  "covered C (L @ M) \<longleftrightarrow> covered C L \<and> covered (C \<union> upserted L) M"
proof (induction L arbitrary: C)
  case Nil
  then show ?case by simp
next
  case (Cons s L)
  then show ?case by (cases s) simp_all
qed

lemma step_tidy:
  assumes "step R doc st txt = Inr st'" "tidy st"
  shows "tidy st'"
  using assms(1)
proof (cases rule: step_cases)
  case (append a)
  with assms(2) show ?thesis
    by (simp add: tidy_def covered_append upserted_append)
qed (use assms(2) in \<open>simp_all add: tidy_def covered_append upserted_append\<close>)

lemma process_item_tidy:
  assumes "process_item R doc st it = Inr st'" "tidy st"
  shows "tidy st'"
proof (cases "fst it")
  case None
  with assms show ?thesis by (simp add: process_item_def)
next
  case (Some t)
  show ?thesis
  proof (cases "t = []")
    case True
    with Some assms show ?thesis by (simp add: process_item_def)
  next
    case False
    with Some assms have "step R doc st (strip t) = Inr st'" by (simp add: process_item_def)
    then show ?thesis using assms(2) by (rule step_tidy)
  qed
qed

lemma scan_tidy:
  "scan R doc st its = Inr st' \<Longrightarrow> tidy st \<Longrightarrow> tidy st'"
proof (induction its arbitrary: st)
  case Nil
  then show ?case by simp
next
  case (Cons it its)
  from Cons.prems(1) obtain st1 where 1: "process_item R doc st it = Inr st1"
    and 2: "scan R doc st1 its = Inr st'"
    by (auto split: sum.splits)
  from process_item_tidy [OF 1 Cons.prems(2)] Cons.IH [OF 2] show ?case by simp
qed

lemma start_tidy: "tidy (start doc md)"
  by (simp add: tidy_def start_def)

lemma exec_keeps_row:
  assumes "legal_nodes db u = Some r"
  shows "\<exists>r'. legal_nodes (exec db s) u = Some r' \<and> doc_id r' = doc_id r \<and> num_val r' = num_val r"
proof (cases s)
  case (UpsertMetadata d t c p)
  with assms show ?thesis by (simp add: exec_rows)
next
  case (UpsertNode d v l n c p)
  with assms show ?thesis by (cases "v = u") (simp_all add: exec_rows)
next
  case (AppendContent f v)
  with assms show ?thesis by (cases "v = u") (simp_all add: exec_rows)
qed

lemma commit_keeps_row:
  "legal_nodes db u = Some r \<Longrightarrow>
   \<exists>r'. legal_nodes (commit db L) u = Some r' \<and> doc_id r' = doc_id r \<and> num_val r' = num_val r"
proof (induction L arbitrary: db r)
  case Nil
  then show ?case by (simp add: commit_Nil)
next
  case (Cons s L)
  from exec_keeps_row [OF Cons.prems, of s] obtain r1 where
    r1: "legal_nodes (exec db s) u = Some r1" "doc_id r1 = doc_id r" "num_val r1 = num_val r"
    by blast
  from Cons.IH [OF r1(1)] r1(2,3) show ?case by (simp add: commit_Cons)
qed

lemma node_eqI:
  "doc_id r = doc_id r' \<Longrightarrow> label r = label r' \<Longrightarrow> num_val r = num_val r' \<Longrightarrow>
   content r = content r' \<Longrightarrow> parent_uri r = parent_uri r' \<Longrightarrow> r = (r' :: node)"
  by simp

lemma lockstep:
  assumes "covered C L"
    and "\<forall>u\<in>C. legal_nodes db' u = legal_nodes db u"
    and "\<forall>u. u \<notin> C \<longrightarrow> legal_nodes db' u = legal_nodes (commit db L) u"
  shows "legal_nodes (commit db' L) = legal_nodes (commit db L)"
  using assms
proof (induction L arbitrary: C db db')
  case Nil
  then show ?case by (intro ext) (simp add: commit_Nil, metis)
next
  case (Cons s L)
  show ?case
  proof (cases s)
    case (UpsertMetadata d t c p)
    with Cons.prems have "legal_nodes (commit (exec db' s) L) = legal_nodes (commit (exec db s) L)"
      by (intro Cons.IH [of C]) (simp_all add: exec_rows commit_Cons)
    then show ?thesis by (simp add: commit_Cons)
  next
    case (AppendContent f v)
    with Cons.prems have v: "v \<in> C" and c: "covered C L" by simp_all
    have "\<forall>u\<in>C. legal_nodes (exec db' s) u = legal_nodes (exec db s) u"
    proof
      fix u assume "u \<in> C"
      with Cons.prems(2) v show "legal_nodes (exec db' s) u = legal_nodes (exec db s) u"
        unfolding AppendContent by (cases "u = v") (simp_all add: exec_rows)
    qed
    moreover have "\<forall>u. u \<notin> C \<longrightarrow> legal_nodes (exec db' s) u = legal_nodes (commit (exec db s) L) u"
    proof (intro allI impI)
      fix u assume u: "u \<notin> C"
      with v have "u \<noteq> v" by blast
      with Cons.prems(3) u show "legal_nodes (exec db' s) u = legal_nodes (commit (exec db s) L) u"
        unfolding AppendContent by (simp add: exec_rows commit_Cons)
    qed
    ultimately have "legal_nodes (commit (exec db' s) L) = legal_nodes (commit (exec db s) L)"
      using c by (intro Cons.IH [of C]) simp_all
    then show ?thesis by (simp add: commit_Cons)
  next
    case (UpsertNode d v l n c p)
    with Cons.prems have c: "covered (insert v C) L" by simp
    have same: "legal_nodes (exec db' s) v = legal_nodes (exec db s) v"
    proof (cases "v \<in> C")
      case True
      with Cons.prems(2) show ?thesis unfolding UpsertNode by (simp add: exec_rows)
    next
      case False
      obtain x where x: "legal_nodes (exec db s) v = Some x" "label x = l" "content x = c"
        "parent_uri x = p"
        unfolding UpsertNode by (cases "legal_nodes db v") (simp_all add: exec_rows)
      from commit_keeps_row [OF x(1), of L] obtain r' where
        r': "legal_nodes (commit (exec db s) L) v = Some r'" "doc_id r' = doc_id x"
          "num_val r' = num_val x"
        by blast
      from False Cons.prems(3) r'(1) have "legal_nodes db' v = Some r'"
        by (simp add: commit_Cons)
      then have "legal_nodes (exec db' s) v =
          Some \<lparr>doc_id = doc_id r', label = l, num_val = num_val r', content = c,
                 parent_uri = p\<rparr>"
        unfolding UpsertNode by (simp add: exec_rows)
      moreover have "x = \<lparr>doc_id = doc_id r', label = l, num_val = num_val r', content = c,
                 parent_uri = p\<rparr>"
        using x r' by (intro node_eqI) simp_all
      ultimately show ?thesis using x(1) by simp
    qed
    have "\<forall>u\<in>insert v C. legal_nodes (exec db' s) u = legal_nodes (exec db s) u"
    proof
      fix u assume "u \<in> insert v C"
      with Cons.prems(2) same show "legal_nodes (exec db' s) u = legal_nodes (exec db s) u"
        unfolding UpsertNode by (cases "u = v") (simp_all add: exec_rows)
    qed
    moreover have "\<forall>u. u \<notin> insert v C \<longrightarrow>
        legal_nodes (exec db' s) u = legal_nodes (commit (exec db s) L) u"
    proof (intro allI impI)
      fix u assume "u \<notin> insert v C"
      with Cons.prems(3) show "legal_nodes (exec db' s) u = legal_nodes (commit (exec db s) L) u"
        unfolding UpsertNode by (simp add: exec_rows commit_Cons)
    qed
    ultimately have "legal_nodes (commit (exec db' s) L) = legal_nodes (commit (exec db s) L)"
      using c by (intro Cons.IH [of "insert v C"]) simp_all
    then show ?thesis by (simp add: commit_Cons)
  qed
qed

lemma metadata_twice:
  assumes "legal_metadata X = legal_metadata (exec db (UpsertMetadata d t c p))"
  shows "legal_metadata (exec X (UpsertMetadata d t c p)) =
         legal_metadata (exec db (UpsertMetadata d t c p))"
proof
  fix d'
  show "legal_metadata (exec X (UpsertMetadata d t c p)) d' =
        legal_metadata (exec db (UpsertMetadata d t c p)) d'"
    using assms by (cases "d' = d") (simp_all add: exec_rows split: option.splits)
qed

lemma commit_twice:
  assumes "covered {} (M # L)" "list_all is_node_statement L" "M = UpsertMetadata d t c p"
  shows "commit (commit db (M # L)) (M # L) = commit db (M # L)"
proof (rule database.equality)
  show "legal_nodes (commit (commit db (M # L)) (M # L)) = legal_nodes (commit db (M # L))"
    using assms(1) by (rule lockstep) simp_all
  have 1: "legal_metadata (commit db (M # L)) = legal_metadata (exec db M)"
    using assms(2) by (simp add: commit_Cons commit_node_metadata)
  have "legal_metadata (commit (commit db (M # L)) (M # L)) =
        legal_metadata (exec (commit db (M # L)) M)"
    using assms(2) by (simp add: commit_Cons commit_node_metadata)
  also have "\<dots> = legal_metadata (exec db M)"
    using 1 unfolding assms(3) by (rule metadata_twice)
  finally show "legal_metadata (commit (commit db (M # L)) (M # L)) =
      legal_metadata (commit db (M # L))"
    using 1 by simp
qed simp

text \<open>
  C3: a second run of \<open>parse_and_store\<close> on the same items, document identifier and
  metadata, from the store that the first run left, returns and leaves that store as
  it is: the same rows under the same URIs with the same content, parent and label,
  and the same metadata. The pass never reads the store, so both runs execute the same
  statements; every append is to a URI the pass has upserted before, and the upsert of
  the second run resets the content to the header text before the appends come again.
\<close>

theorem parse_and_store_idempotent:
  assumes "parse_and_store R db its doc md = Inr db1"
  shows "parse_and_store R db1 its doc md = Inr db1"
proof -
  from assms obtain st L where st: "scan R doc (start doc md) its = Inr st"
    and c: "cur st = UpsertMetadata doc (title md) (creator md) (pub_date md) # L"
    and n: "list_all is_node_statement L" and db1: "db1 = commit db (cur st)"
    by (rule parse_and_store_cases)
  from scan_tidy [OF st start_tidy] have "covered {} (cur st)" by (simp add: tidy_def)
  with c n have "commit (commit db (cur st)) (cur st) = commit db (cur st)"
    by (intro commit_twice [where M = "UpsertMetadata doc (title md) (creator md) (pub_date md)"
          and L = L, unfolded c [symmetric]]) simp_all
  with st db1 show ?thesis by (simp add: parse_and_store_def)
qed

lemma accrual_run:
  "parse_and_store cpython empty_db accrual_items GSF gsf_metadata =
     Inr (commit empty_db
       [UpsertMetadata GSF (title gsf_metadata) (creator gsf_metadata) (pub_date gsf_metadata),
        UpsertNode GSF (asc ''/gsf/c1/a2'') ''section'' 2 [DI, ER, TIAO, SPC, 65]
          (Some (asc ''/gsf/c1'')),
        AppendContent [LF, 0x5185, 0x5BB9, 66] (asc ''/gsf/c1/a2''),
        AppendContent [LF, 0x5185, 0x5BB9, 67] (asc ''/gsf/c1/a2'')])"
  by (simp add: accrual_items_def pass_eval GSF_def)

theorem parse_and_store_idempotent_witness:
  "parse_and_store cpython empty_db accrual_items GSF gsf_metadata =
     Inr (commit empty_db
       [UpsertMetadata GSF (title gsf_metadata) (creator gsf_metadata) (pub_date gsf_metadata),
        UpsertNode GSF (asc ''/gsf/c1/a2'') ''section'' 2 [DI, ER, TIAO, SPC, 65]
          (Some (asc ''/gsf/c1'')),
        AppendContent [LF, 0x5185, 0x5BB9, 66] (asc ''/gsf/c1/a2''),
        AppendContent [LF, 0x5185, 0x5BB9, 67] (asc ''/gsf/c1/a2'')]) \<and>
   parse_and_store cpython
     (commit empty_db
       [UpsertMetadata GSF (title gsf_metadata) (creator gsf_metadata) (pub_date gsf_metadata),
        UpsertNode GSF (asc ''/gsf/c1/a2'') ''section'' 2 [DI, ER, TIAO, SPC, 65]
          (Some (asc ''/gsf/c1'')),
        AppendContent [LF, 0x5185, 0x5BB9, 66] (asc ''/gsf/c1/a2''),
        AppendContent [LF, 0x5185, 0x5BB9, 67] (asc ''/gsf/c1/a2'')])
     accrual_items GSF gsf_metadata =
     Inr (commit empty_db
       [UpsertMetadata GSF (title gsf_metadata) (creator gsf_metadata) (pub_date gsf_metadata),
        UpsertNode GSF (asc ''/gsf/c1/a2'') ''section'' 2 [DI, ER, TIAO, SPC, 65]
          (Some (asc ''/gsf/c1'')),
        AppendContent [LF, 0x5185, 0x5BB9, 66] (asc ''/gsf/c1/a2''),
        AppendContent [LF, 0x5185, 0x5BB9, 67] (asc ''/gsf/c1/a2'')])"
  using parse_and_store_idempotent [OF accrual_run] accrual_run by simp

section \<open>The parent of an article\<close>





















end
